theory Spec2Isabelle
  imports Main "HOL-Library.AList"
begin

section \<open>JavaScript string primitives used by the program\<close>

text \<open>
  A JavaScript string is modelled as a \<^typ>\<open>string\<close>, one \<^typ>\<open>char\<close> per code unit
  (code units below 256, read as Latin-1).  The functions below follow the ECMAScript
  definitions of the string methods that \<^verbatim>\<open>src/App.tsx\<close> and
  \<^verbatim>\<open>src/services/geminiService.ts\<close> call.
\<close>

text \<open>White space and line terminators removed by \<^verbatim>\<open>String.prototype.trim\<close>:
  TAB, LF, VT, FF, CR, SPACE and NBSP.\<close>

definition isWhiteSpace :: "char \<Rightarrow> bool" where
  "isWhiteSpace c \<longleftrightarrow> of_char c \<in> {9, 10, 11, 12, 13, 32, 160 :: nat}"

definition trim :: "string \<Rightarrow> string" where
  "trim s = rev (dropWhile isWhiteSpace (rev (dropWhile isWhiteSpace s)))"

text \<open>\<^verbatim>\<open>s.startsWith(p)\<close>.\<close>

fun startsWith :: "string \<Rightarrow> string \<Rightarrow> bool" where
  "startsWith s [] = True"
| "startsWith [] (p # ps) = False"
| "startsWith (c # cs) (p # ps) = (c = p \<and> startsWith cs ps)"

text \<open>\<^verbatim>\<open>s.indexOf(m)\<close>: the least position at which \<open>m\<close> occurs in \<open>s\<close>, or \<open>-1\<close>.
  The auxiliary function carries the position reached so far.\<close>

fun indexOfFrom :: "nat \<Rightarrow> string \<Rightarrow> string \<Rightarrow> int" where
  "indexOfFrom i [] m = (if m = [] then int i else - 1)"
| "indexOfFrom i (c # cs) m =
     (if startsWith (c # cs) m then int i else indexOfFrom (Suc i) cs m)"

definition indexOf :: "string \<Rightarrow> string \<Rightarrow> int" where
  "indexOf s m = indexOfFrom 0 s m"

text \<open>\<^verbatim>\<open>s.substring(a, b)\<close>: both arguments are clamped to \<open>[0, length s]\<close> and
  swapped when the first exceeds the second.\<close>

definition substring :: "string \<Rightarrow> int \<Rightarrow> int \<Rightarrow> string" where
  "substring s a b =
     (let len = int (length s);
          finalStart = min (max a 0) len;
          finalEnd = min (max b 0) len;
          from = min finalStart finalEnd;
          to = max finalStart finalEnd
      in take (nat (to - from)) (drop (nat from) s))"

text \<open>\<^verbatim>\<open>s.replace(pat, rep)\<close> with a string pattern: only the first occurrence is
  replaced.  (The replacement strings used by the program contain no \<^verbatim>\<open>$\<close>.)\<close>

definition replaceFirst :: "string \<Rightarrow> string \<Rightarrow> string \<Rightarrow> string" where
  "replaceFirst s pat rep =
     (let i = indexOf s pat
      in if i < 0 then s
         else take (nat i) s @ rep @ drop (nat i + length pat) s)"

text \<open>\<^verbatim>\<open>s.replace(/^## /, '')\<close>: the anchored pattern can only match at position 0.\<close>

definition stripHeadingMarker :: "string \<Rightarrow> string" where
  "stripHeadingMarker s = (if startsWith s ''## '' then drop 3 s else s)"

text \<open>\<^verbatim>\<open>s.split('\n')\<close>: the pieces between line feeds; never the empty list.\<close>

fun splitLines :: "string \<Rightarrow> string list" where
  "splitLines [] = [[]]"
| "splitLines (c # cs) =
     (if c = CHR 0x0A then [] # splitLines cs
      else (case splitLines cs of
              l # ls \<Rightarrow> (c # l) # ls
            | [] \<Rightarrow> [[c]]))"

section \<open>The sectionizer (\<^verbatim>\<open>parseSections\<close>, src/App.tsx lines 62-89)\<close>

record Section =
  title :: string
  content :: string

text \<open>The loop state: the sections pushed so far and \<^verbatim>\<open>currentSection\<close>.\<close>

type_synonym parse_state = "Section list \<times> Section"

definition isHeadingLine :: "string \<Rightarrow> bool" where
  "isHeadingLine line = startsWith (trim line) ''##''"

text \<open>One iteration of \<^verbatim>\<open>for (const line of lines)\<close>.\<close>

definition parseLine :: "parse_state \<Rightarrow> string \<Rightarrow> parse_state" where
  "parseLine st line =
     (let sections = fst st; currentSection = snd st
      in if isHeadingLine line then
           (if length (trim (content currentSection)) > 0
               \<and> title currentSection \<noteq> ''Abstract''
            then sections @ [currentSection\<lparr>content := trim (content currentSection)\<rparr>]
            else sections,
            \<lparr>title = stripHeadingMarker (trim line), content = ''''\<rparr>)
         else
           (sections,
            currentSection\<lparr>content := content currentSection @ line @ [CHR 0x0A]\<rparr>))"

definition abstractContent :: "string \<Rightarrow> string" where
  "abstractContent text =
     substring text (indexOf text ''## Abstract'')
                    (indexOf text ''## I. The Core Framework'')"

definition parseSections :: "string \<Rightarrow> Section list" where
  "parseSections text =
     (let lines = splitLines text;
          sections0 = [\<lparr>title = ''Abstract'',
                        content = trim (replaceFirst (abstractContent text) ''## Abstract'' '''')\<rparr>];
          st = foldl parseLine (sections0, \<lparr>title = ''Abstract'', content = ''''\<rparr>) lines;
          sections = fst st; currentSection = snd st
      in if length (trim (content currentSection)) > 0
         then sections @ [currentSection\<lparr>content := trim (content currentSection)\<rparr>]
         else sections)"

subsection \<open>Vocabulary for documents seen as heading blocks\<close>

text \<open>
  The lines of a document fall into a preamble of lines that are not headings, followed by
  blocks: a heading line and the lines up to the next heading line.  The definitions below
  name what the loop computes for such a block; they are used to state and prove the
  properties of \<^const>\<open>parseSections\<close>.
\<close>

text \<open>The content buffer obtained by appending the lines \<open>b\<close> one by one.\<close>

definition bodyText :: "string list \<Rightarrow> string" where
  "bodyText b = concat (map (\<lambda>l. l @ [CHR 0x0A]) b)"

text \<open>The title the loop gives to the section opened by heading line \<open>h\<close>.\<close>

definition headingTitle :: "string \<Rightarrow> string" where
  "headingTitle h = stripHeadingMarker (trim h)"

text \<open>What a heading line pushes when it closes \<^verbatim>\<open>currentSection\<close>.\<close>

definition closeSection :: "Section \<Rightarrow> Section list" where
  "closeSection cur =
     (if length (trim (content cur)) > 0 \<and> title cur \<noteq> ''Abstract''
      then [cur\<lparr>content := trim (content cur)\<rparr>] else [])"

definition blockLines :: "(string \<times> string list) list \<Rightarrow> string list" where
  "blockLines bs = concat (map (\<lambda>(h, b). h # b) bs)"

definition wellFormedBlock :: "string \<times> string list \<Rightarrow> bool" where
  "wellFormedBlock hb \<longleftrightarrow>
     isHeadingLine (fst hb) \<and> list_all (\<lambda>l. \<not> isHeadingLine l) (snd hb)"

definition blockSection :: "string \<times> string list \<Rightarrow> Section" where
  "blockSection hb = \<lparr>title = headingTitle (fst hb), content = bodyText (snd hb)\<rparr>"

text \<open>A block yields a section when its body is not blank and its title is not
  \<^verbatim>\<open>Abstract\<close>.\<close>

definition emitted :: "string \<times> string list \<Rightarrow> bool" where
  "emitted hb \<longleftrightarrow>
     trim (bodyText (snd hb)) \<noteq> [] \<and> headingTitle (fst hb) \<noteq> ''Abstract''"

subsection \<open>Example documents\<close>

definition exampleDocument :: string where
  "exampleDocument =
     ''# T\<newline>## Abstract\<newline>abs\<newline>## I. The Core Framework\<newline>body\<newline>## II. Empty\<newline>\<newline>## III. Z\<newline>z''"

definition blankSectionDocument :: string where
  "blankSectionDocument =
     ''## Abstract\<newline>abs\<newline>## I. The Core Framework\<newline>\<newline>## II. Y\<newline>foo''"

definition scenarioDocument :: string where
  "scenarioDocument =
     ''## Abstract\<newline>abs\<newline>## I. X\<newline>foo\<newline>## II. Y\<newline>''"

text \<open>The same document after a title line and a blank line.\<close>

definition titledScenarioDocument :: string where
  "titledScenarioDocument =
     ''# T\<newline>\<newline>## Abstract\<newline>abs\<newline>## I. X\<newline>foo\<newline>## II. Y\<newline>''"

section \<open>JSON values and \<^verbatim>\<open>JSON.parse\<close>\<close>

text \<open>
  \<^verbatim>\<open>generateQuiz\<close> hands the response text to the built-in \<^verbatim>\<open>JSON.parse\<close>.  It is
  modelled by a recursive-descent parser for the JSON grammar (ECMA-404): white space is
  TAB, LF, CR and SPACE; a number is kept as its lexeme, since the program never computes
  with one; an object is the list of its members in source order.  A \<^verbatim>\<open>\u\<close> escape
  yields the character with that code, taken modulo 256 as the string model has 8-bit
  characters.
\<close>

datatype json =
    JNull
  | JBool bool
  | JNumber string
  | JString string
  | JArray "json list"
  | JObject "(string \<times> json) list"

definition isJsonWs :: "char \<Rightarrow> bool" where
  "isJsonWs c \<longleftrightarrow> of_char c \<in> {9, 10, 13, 32 :: nat}"

definition skipWs :: "string \<Rightarrow> string" where
  "skipWs s = dropWhile isJsonWs s"

definition isDigit :: "char \<Rightarrow> bool" where
  "isDigit c \<longleftrightarrow> (48 :: nat) \<le> of_char c \<and> of_char c \<le> (57 :: nat)"

definition hexDigit :: "char \<Rightarrow> nat option" where
  "hexDigit c =
     (let n = of_char c :: nat
      in if 48 \<le> n \<and> n \<le> 57 then Some (n - 48)
         else if 65 \<le> n \<and> n \<le> 70 then Some (n - 55)
         else if 97 \<le> n \<and> n \<le> 102 then Some (n - 87)
         else None)"

definition hex4 :: "char \<Rightarrow> char \<Rightarrow> char \<Rightarrow> char \<Rightarrow> nat option" where
  "hex4 a b c d =
     (case (hexDigit a, hexDigit b, hexDigit c, hexDigit d) of
        (Some x, Some y, Some z, Some w) \<Rightarrow> Some (((x * 16 + y) * 16 + z) * 16 + w)
      | _ \<Rightarrow> None)"

definition escapeChar :: "char \<Rightarrow> char option" where
  "escapeChar e =
     (if e = CHR 0x22 then Some (CHR 0x22)
      else if e = CHR 0x5C then Some (CHR 0x5C)
      else if e = CHR ''/'' then Some (CHR ''/'')
      else if e = CHR ''b'' then Some (CHR 0x08)
      else if e = CHR ''f'' then Some (CHR 0x0C)
      else if e = CHR ''n'' then Some (CHR 0x0A)
      else if e = CHR ''r'' then Some (CHR 0x0D)
      else if e = CHR ''t'' then Some (CHR 0x09)
      else None)"

text \<open>The characters of a string literal after its opening quote, up to the closing
  quote: the decoded string and the rest of the input.\<close>

fun parseStringChars :: "string \<Rightarrow> (string \<times> string) option" where
  "parseStringChars [] = None"
| "parseStringChars (c # cs) =
     (if c = CHR 0x22 then Some ([], cs)
      else if c = CHR 0x5C then
        (case cs of
           [] \<Rightarrow> None
         | e # r \<Rightarrow>
             if e = CHR ''u'' then
               (case r of
                  h1 # h2 # h3 # h4 # r' \<Rightarrow>
                    (case hex4 h1 h2 h3 h4 of
                       None \<Rightarrow> None
                     | Some n \<Rightarrow> map_option (apfst ((#) (char_of n))) (parseStringChars r'))
                | _ \<Rightarrow> None)
             else
               (case escapeChar e of
                  None \<Rightarrow> None
                | Some x \<Rightarrow> map_option (apfst ((#) x)) (parseStringChars r)))
      else if (of_char c :: nat) < 32 then None
      else map_option (apfst ((#) c)) (parseStringChars cs))"

text \<open>A number: an optional minus sign, an integer part without a superfluous leading
  zero, an optional fraction and an optional exponent.\<close>

definition parseDigits :: "string \<Rightarrow> (string \<times> string) option" where
  "parseDigits s =
     (if takeWhile isDigit s = [] then None
      else Some (takeWhile isDigit s, dropWhile isDigit s))"

definition parseInt :: "string \<Rightarrow> (string \<times> string) option" where
  "parseInt s =
     (case parseDigits s of
        None \<Rightarrow> None
      | Some (ds, r) \<Rightarrow> if length ds > 1 \<and> hd ds = CHR ''0'' then None else Some (ds, r))"

definition parseFrac :: "string \<Rightarrow> (string \<times> string) option" where
  "parseFrac s =
     (case s of
        c # r \<Rightarrow>
          if c = CHR ''.'' then map_option (apfst ((#) c)) (parseDigits r) else Some ([], s)
      | [] \<Rightarrow> Some ([], s))"

definition parseExp :: "string \<Rightarrow> (string \<times> string) option" where
  "parseExp s =
     (case s of
        c # r \<Rightarrow>
          if c = CHR ''e'' \<or> c = CHR ''E'' then
            (case r of
               d # r' \<Rightarrow>
                 if d = CHR ''+'' \<or> d = CHR ''-''
                 then map_option (apfst (\<lambda>ds. c # d # ds)) (parseDigits r')
                 else map_option (apfst ((#) c)) (parseDigits r)
             | [] \<Rightarrow> None)
          else Some ([], s)
      | [] \<Rightarrow> Some ([], s))"

definition parseNumber :: "string \<Rightarrow> (string \<times> string) option" where
  "parseNumber s =
     (let sign = (if startsWith s ''-'' then ''-'' else '''');
          s0 = drop (length sign) s
      in case parseInt s0 of
           None \<Rightarrow> None
         | Some (ds, s1) \<Rightarrow>
             (case parseFrac s1 of
                None \<Rightarrow> None
              | Some (fr, s2) \<Rightarrow>
                  (case parseExp s2 of
                     None \<Rightarrow> None
                   | Some (ex, s3) \<Rightarrow> Some (sign @ ds @ fr @ ex, s3))))"

text \<open>
  A value, the elements of an array after its opening bracket, and the members of an object
  after its opening brace.  The functions call each other on the rest of the input that the
  previous call returns, so they recurse on a bound for the depth of the calls instead.
  Between two calls in a row at least one character is consumed, so the bound
  \<open>2 * length text + 2\<close> that \<open>JSON_parse\<close> starts with is never reached on the way to a
  result (lemma \<open>JSON_parse_fuel\<close> below).
\<close>

fun parseValue :: "nat \<Rightarrow> string \<Rightarrow> (json \<times> string) option"
  and parseElements :: "nat \<Rightarrow> string \<Rightarrow> (json list \<times> string) option"
  and parseMembers :: "nat \<Rightarrow> string \<Rightarrow> ((string \<times> json) list \<times> string) option"
where
  "parseValue 0 s = None"
| "parseValue (Suc n) s =
     (case s of
        [] \<Rightarrow> None
      | c # r \<Rightarrow>
          if c = CHR ''{'' then
            (case skipWs r of
               [] \<Rightarrow> None
             | d # r' \<Rightarrow>
                 if d = CHR ''}'' then Some (JObject [], r')
                 else map_option (apfst JObject) (parseMembers n (d # r')))
          else if c = CHR ''['' then
            (case skipWs r of
               [] \<Rightarrow> None
             | d # r' \<Rightarrow>
                 if d = CHR '']'' then Some (JArray [], r')
                 else map_option (apfst JArray) (parseElements n (d # r')))
          else if c = CHR 0x22 then map_option (apfst JString) (parseStringChars r)
          else if startsWith s ''true'' then Some (JBool True, drop 4 s)
          else if startsWith s ''false'' then Some (JBool False, drop 5 s)
          else if startsWith s ''null'' then Some (JNull, drop 4 s)
          else map_option (apfst JNumber) (parseNumber s))"
| "parseElements 0 s = None"
| "parseElements (Suc n) s =
     (case parseValue n s of
        None \<Rightarrow> None
      | Some (v, r) \<Rightarrow>
          (case skipWs r of
             [] \<Rightarrow> None
           | c # r' \<Rightarrow>
               if c = CHR '','' then
                 map_option (apfst ((#) v)) (parseElements n (skipWs r'))
               else if c = CHR '']'' then Some ([v], r')
               else None))"
| "parseMembers 0 s = None"
| "parseMembers (Suc n) s =
     (case s of
        [] \<Rightarrow> None
      | q # r \<Rightarrow>
          if q \<noteq> CHR 0x22 then None
          else
            (case parseStringChars r of
               None \<Rightarrow> None
             | Some (k, r1) \<Rightarrow>
                 (case skipWs r1 of
                    [] \<Rightarrow> None
                  | d # r2 \<Rightarrow>
                      if d \<noteq> CHR '':'' then None
                      else
                        (case parseValue n (skipWs r2) of
                           None \<Rightarrow> None
                         | Some (v, r3) \<Rightarrow>
                             (case skipWs r3 of
                                [] \<Rightarrow> None
                              | e # r4 \<Rightarrow>
                                  if e = CHR '','' then
                                    map_option (apfst ((#) (k, v))) (parseMembers n (skipWs r4))
                                  else if e = CHR ''}'' then Some ([(k, v)], r4)
                                  else None)))))"

text \<open>The exceptions of the program: an \<^verbatim>\<open>Error\<close> with its message, and the
  \<^verbatim>\<open>TypeError\<close> and \<^verbatim>\<open>SyntaxError\<close> that the language raises.\<close>

datatype js_error = Error string | TypeError string | SyntaxError string

text \<open>\<^verbatim>\<open>JSON.parse(text)\<close>: one value between optional white space, or a
  \<^verbatim>\<open>SyntaxError\<close>.\<close>

definition JSON_parse :: "string \<Rightarrow> js_error + json" where
  "JSON_parse text =
     (case parseValue (2 * length text + 2) (skipWs text) of
        None \<Rightarrow> Inl (SyntaxError ''Unexpected token in JSON'')
      | Some (v, r) \<Rightarrow>
          if skipWs r = [] then Inr v else Inl (SyntaxError ''Unexpected token in JSON''))"

text \<open>A bound \<open>n\<close> is enough for a parser \<open>p\<close> when every result it gives at \<open>n\<close>
  leaves less input than it was given and is given again at every bound of at least twice
  the number of characters consumed.\<close>

definition enoughFuel :: "(nat \<Rightarrow> string \<Rightarrow> ('a \<times> string) option) \<Rightarrow> nat \<Rightarrow> bool" where
  "enoughFuel p n \<longleftrightarrow>
     (\<forall>s x r. p n s = Some (x, r) \<longrightarrow>
        length r < length s
        \<and> (\<forall>m. 2 * (length s - length r) \<le> m \<longrightarrow> p m s = Some (x, r)))"

section \<open>The language-model gateway (src/services/geminiService.ts)\<close>

text \<open>
  The three exported functions are \<^verbatim>\<open>async\<close>: each is modelled by the value its promise
  settles with, \<open>Inl\<close> for a rejection (a raised error) and \<open>Inr\<close> for the result.  The
  remote service is a parameter: a function from the request to the outcome of
  \<^verbatim>\<open>await ai.models.generateContent(request)\<close> followed by reading \<^verbatim>\<open>response.text\<close>, which is
  either a raised error or the value of the property: a string, or \<^verbatim>\<open>undefined\<close> (here
  \<open>None\<close>) when the response carries no text, as for a response without candidates.
  Writing to the console is not modelled.
\<close>

text \<open>The response schema that \<^verbatim>\<open>generateQuiz\<close> sends: the types \<^verbatim>\<open>Type.STRING\<close>,
  \<^verbatim>\<open>Type.ARRAY\<close> with its items, and \<^verbatim>\<open>Type.OBJECT\<close> with its properties and their
  ordering.\<close>

datatype schema =
    TypeString
  | TypeArray schema
  | TypeObject "(string \<times> schema) list" "string list"

record GenerationConfig =
  responseMimeType :: string
  responseSchema :: schema

record GenerateContentParameters =
  model :: string
  contents :: string
  config :: "GenerationConfig option"

type_synonym GoogleGenAI = "GenerateContentParameters \<Rightarrow> js_error + string option"

text \<open>The module constant \<^verbatim>\<open>ai\<close>: a client when \<^verbatim>\<open>process.env.API_KEY\<close> is a non-empty
  string, \<^verbatim>\<open>null\<close> otherwise.  The functions below take its value as their first
  argument.\<close>

definition ai :: "string option \<Rightarrow> (string \<Rightarrow> GoogleGenAI) \<Rightarrow> GoogleGenAI option" where
  "ai API_KEY newGoogleGenAI =
     (case API_KEY of
        None \<Rightarrow> None
      | Some key \<Rightarrow> if key \<noteq> [] then Some (newGoogleGenAI key) else None)"

definition modelName :: string where
  "modelName = ''gemini-2.5-flash''"

definition apiKeyErrorMessage :: string where
  "apiKeyErrorMessage =
     ''API Key is not configured. Please set up the process.env.API_KEY environment variable.''"

definition checkApiKey :: "GoogleGenAI option \<Rightarrow> string option" where
  "checkApiKey client = (case client of None \<Rightarrow> Some apiKeyErrorMessage | Some _ \<Rightarrow> None)"

text \<open>The truth value of a \<^verbatim>\<open>string | null | undefined\<close> in a condition.\<close>

definition truthy :: "string option \<Rightarrow> bool" where
  "truthy v = (case v of None \<Rightarrow> False | Some s \<Rightarrow> s \<noteq> [])"

text \<open>\<^verbatim>\<open>(await ai!.models.generateContent(params)).text\<close>; on \<^verbatim>\<open>null\<close> the property
  access raises.\<close>

definition generateContent ::
  "GoogleGenAI option \<Rightarrow> GenerateContentParameters \<Rightarrow> js_error + string option" where
  "generateContent client params =
     (case client of
        None \<Rightarrow> Inl (TypeError ''Cannot read properties of null'')
      | Some c \<Rightarrow> c params)"

definition summaryPrompt :: "string \<Rightarrow> string \<Rightarrow> string" where
  \<open>summaryPrompt sectionTitle sectionContent =
     ''Summarize the following section from a theoretical physics report in a concise paragraph. Do not use markdown headers or titles. Do not introduce the summary with phrases like "This section is about" or "In this section...". Just provide the summary.\<newline>\<newline>Section Title: ''
     @ sectionTitle @ ''\<newline>Section Content: '' @ sectionContent\<close>

text \<open>\<^verbatim>\<open>generateSummary\<close>: the value the promise settles with.  The result is what
  \<^verbatim>\<open>return response.text\<close> hands back, so it is \<open>None\<close> (\<^verbatim>\<open>undefined\<close>) when the
  response carries no text.\<close>

definition generateSummary ::
  "GoogleGenAI option \<Rightarrow> string \<Rightarrow> string \<Rightarrow> js_error + string option" where
  "generateSummary client sectionTitle sectionContent =
     (let apiKeyError = checkApiKey client
      in if truthy apiKeyError then Inr apiKeyError
         else
           (case generateContent client
                   \<lparr>model = modelName, contents = summaryPrompt sectionTitle sectionContent,
                    config = None\<rparr> of
              Inr text \<Rightarrow> Inr text
            | Inl error \<Rightarrow> Inr (Some ''Failed to generate summary.'')))"

definition answerPrompt :: "string \<Rightarrow> string \<Rightarrow> string" where
  "answerPrompt reportText question =
     ''Based on the following document, answer the user's question. If the information is not in the document, state that you cannot answer.\<newline>\<newline>Document:\<newline>''
     @ reportText @ ''\<newline>\<newline>Question: '' @ question"

definition answerQuestion ::
  "GoogleGenAI option \<Rightarrow> string \<Rightarrow> string \<Rightarrow> js_error + string option" where
  "answerQuestion client reportText question =
     (let apiKeyError = checkApiKey client
      in if truthy apiKeyError then Inr apiKeyError
         else
           (case generateContent client
                   \<lparr>model = modelName, contents = answerPrompt reportText question,
                    config = None\<rparr> of
              Inr text \<Rightarrow> Inr text
            | Inl error \<Rightarrow> Inr (Some ''Failed to get an answer. Please try again.'')))"

definition quizPrompt :: "string \<Rightarrow> string" where
  "quizPrompt reportText =
     ''Create a 5-question multiple-choice quiz based on the following document. The response must be a valid JSON object with a single 'quiz' key. The value of 'quiz' should be an array of objects. Each object in the array must have the following keys: 'question' (string), 'options' (array of strings, exactly 4 options), and 'correctAnswer' (string, the correct option). Do not include any other text in the response, just the JSON.\<newline>\<newline>Document:\<newline>''
     @ reportText"

definition quizSchema :: schema where
  "quizSchema =
     TypeObject
       [(''quiz'',
         TypeArray
           (TypeObject
              [(''question'', TypeString),
               (''options'', TypeArray TypeString),
               (''correctAnswer'', TypeString)]
              [''question'', ''options'', ''correctAnswer'']))]
       []"

definition quizParameters :: "string \<Rightarrow> GenerateContentParameters" where
  "quizParameters reportText =
     \<lparr>model = modelName, contents = quizPrompt reportText,
      config = Some \<lparr>responseMimeType = ''application/json'', responseSchema = quizSchema\<rparr>\<rparr>"

text \<open>The body of the \<^verbatim>\<open>try\<close> block of \<^verbatim>\<open>generateQuiz\<close>.  When the response carries
  no text, \<^verbatim>\<open>response.text.trim()\<close> raises a \<^verbatim>\<open>TypeError\<close>.\<close>

definition generateQuizTry :: "GoogleGenAI option \<Rightarrow> string \<Rightarrow> js_error + json" where
  "generateQuizTry client reportText =
     (case generateContent client (quizParameters reportText) of
        Inl error \<Rightarrow> Inl error
      | Inr None \<Rightarrow> Inl (TypeError ''Cannot read properties of undefined'')
      | Inr (Some text) \<Rightarrow>
          (let jsonText = trim text
           in if \<not> startsWith jsonText ''{'' \<and> \<not> startsWith jsonText ''[''
              then Inl (Error ''Invalid response format from API.'')
              else JSON_parse jsonText))"

definition generateQuiz :: "GoogleGenAI option \<Rightarrow> string \<Rightarrow> js_error + json" where
  "generateQuiz client reportText =
     (let apiKeyError = checkApiKey client
      in if truthy apiKeyError then Inl (Error (case apiKeyError of Some e \<Rightarrow> e | None \<Rightarrow> []))
         else
           (case generateQuizTry client reportText of
              Inr quizData \<Rightarrow> Inr quizData
            | Inl error \<Rightarrow> Inl (Error ''Failed to generate quiz. Please try again.'')))"

subsection \<open>The shape the quiz is asked to have\<close>

text \<open>\<^verbatim>\<open>v[key]\<close> on a parsed JSON value: the own property of an object (the last
  binding when a key is repeated); \<open>None\<close> stands for \<^verbatim>\<open>undefined\<close>.\<close>

definition getProp :: "json \<Rightarrow> string \<Rightarrow> json option" where
  "getProp v key = (case v of JObject members \<Rightarrow> map_of (rev members) key | _ \<Rightarrow> None)"

text \<open>The invariant of a quiz question: exactly four options, and
  \<^verbatim>\<open>correctAnswer\<close> is one of them.\<close>

definition questionShape :: "json \<Rightarrow> bool" where
  "questionShape q =
     (case (getProp q ''options'', getProp q ''correctAnswer'') of
        (Some (JArray opts), Some answer) \<Rightarrow> length opts = 4 \<and> answer \<in> set opts
      | _ \<Rightarrow> False)"

text \<open>The invariant of a quiz: exactly five questions, each of that shape.\<close>

definition quizShape :: "json \<Rightarrow> bool" where
  "quizShape v =
     (case getProp v ''quiz'' of
        Some (JArray qs) \<Rightarrow> length qs = 5 \<and> list_all questionShape qs
      | _ \<Rightarrow> False)"

subsection \<open>Example remote services\<close>

text \<open>A service whose every call is rejected.\<close>

definition failingClient :: GoogleGenAI where
  "failingClient = (\<lambda>params. Inl (Error ''fetch failed''))"

text \<open>A service whose responses carry no text, as a response without candidates does.\<close>

definition noTextClient :: GoogleGenAI where
  "noTextClient = (\<lambda>params. Inr None)"

text \<open>Services that answer every call with a fixed text.\<close>

definition braceClient :: GoogleGenAI where
  "braceClient = (\<lambda>params. Inr (Some ''{''))"

definition proseClient :: GoogleGenAI where
  "proseClient = (\<lambda>params. Inr (Some ''Here is your quiz''))"

definition emptyQuizClient :: GoogleGenAI where
  \<open>emptyQuizClient = (\<lambda>params. Inr (Some ''{"quiz":[]}''))\<close>

definition oneQuestionClient :: GoogleGenAI where
  \<open>oneQuestionClient =
     (\<lambda>params.
        Inr (Some '' {"quiz":[{"question":"q","options":["a","b"],"correctAnswer":"c"}]} ''))\<close>

definition emptyTextClient :: GoogleGenAI where
  "emptyTextClient = (\<lambda>params. Inr (Some ''''))"

section \<open>The quiz store (\<^verbatim>\<open>Quiz\<close>, src/App.tsx lines 251-372)\<close>

record QuizQuestion =
  question :: string
  options :: "string list"
  correctAnswer :: string

text \<open>The value \<^verbatim>\<open>generateQuiz\<close> resolves to, at its declared type
  \<^verbatim>\<open>{quiz: QuizQuestion[]}\<close>; \<open>None\<close> is a missing \<^verbatim>\<open>quiz\<close> property.\<close>

record QuizData =
  quiz :: "QuizQuestion list option"

text \<open>The four \<^verbatim>\<open>useState\<close> cells of the component.  \<^verbatim>\<open>userAnswers\<close> is an object
  keyed by question index: an association list with one entry per key.\<close>

record QuizState =
  questions :: "QuizQuestion list"
  quizLoading :: bool
  userAnswers :: "(nat \<times> string) list"
  showResults :: bool

definition initialQuiz :: QuizState where
  "initialQuiz = \<lparr>questions = [], quizLoading = False, userAnswers = [], showResults = False\<rparr>"

definition message :: "js_error \<Rightarrow> string" where
  "message e = (case e of Error m \<Rightarrow> m | TypeError m \<Rightarrow> m | SyntaxError m \<Rightarrow> m)"

text \<open>\<^verbatim>\<open>callGenerateQuiz\<close> up to its \<^verbatim>\<open>await\<close>.\<close>

definition callGenerateQuizStart :: "QuizState \<Rightarrow> QuizState" where
  "callGenerateQuizStart s =
     s\<lparr>quizLoading := True, questions := [], userAnswers := [], showResults := False\<rparr>"

text \<open>\<^verbatim>\<open>callGenerateQuiz\<close> from the point where the promise settles: the new state and
  the text of the alert, if one is shown.  A null result is the outer \<open>None\<close>.\<close>

definition callGenerateQuizSettle ::
  "js_error + QuizData option \<Rightarrow> QuizState \<Rightarrow> QuizState \<times> string option" where
  "callGenerateQuizSettle outcome s =
     (case outcome of
        Inr (Some quizData) \<Rightarrow>
          (case quiz quizData of
             Some qs \<Rightarrow> (s\<lparr>questions := qs, quizLoading := False\<rparr>, None)
           | None \<Rightarrow>
               (s\<lparr>quizLoading := False\<rparr>,
                Some (''Failed to generate quiz: '' @ ''Invalid quiz data format.'')))
      | Inr None \<Rightarrow>
          (s\<lparr>quizLoading := False\<rparr>,
           Some (''Failed to generate quiz: '' @ ''Invalid quiz data format.''))
      | Inl error \<Rightarrow>
          (s\<lparr>quizLoading := False\<rparr>, Some (''Failed to generate quiz: '' @ message error)))"

definition handleOptionSelect :: "nat \<Rightarrow> string \<Rightarrow> QuizState \<Rightarrow> QuizState" where
  "handleOptionSelect questionIndex option s =
     s\<lparr>userAnswers := AList.update questionIndex option (userAnswers s)\<rparr>"

text \<open>\<^verbatim>\<open>calculateScore\<close>: the \<^verbatim>\<open>forEach\<close> loop over the questions with their indices.\<close>

definition calculateScore :: "QuizState \<Rightarrow> nat" where
  "calculateScore s =
     foldl (\<lambda>score (q, index).
              if map_of (userAnswers s) index = Some (correctAnswer q) then score + 1 else score)
           0 (zip (questions s) [0 ..< length (questions s)])"

text \<open>What the component renders: the start button is disabled while loading; the
  question form is there when there are questions and the results are not shown; its submit
  button is disabled while \<^verbatim>\<open>Object.keys(userAnswers).length < questions.length\<close>.\<close>

definition startDisabled :: "QuizState \<Rightarrow> bool" where
  "startDisabled s = quizLoading s"

definition formShown :: "QuizState \<Rightarrow> bool" where
  "formShown s \<longleftrightarrow> length (questions s) > 0 \<and> \<not> showResults s"

definition submitDisabled :: "QuizState \<Rightarrow> bool" where
  "submitDisabled s \<longleftrightarrow> length (userAnswers s) < length (questions s)"

text \<open>The events of the store: the three controls, and the settling of the pending
  \<^verbatim>\<open>generateQuiz\<close> promise.  An option button is named by the index of its question and
  its own index.\<close>

datatype QuizEvent =
    ClickStartNewQuiz
  | QuizSettled "js_error + QuizData option"
  | ClickOption nat nat
  | ClickSubmit

text \<open>One event; \<open>None\<close> when the control is disabled or not rendered, or when no promise
  is pending.\<close>

definition quizStep :: "QuizState \<Rightarrow> QuizEvent \<Rightarrow> QuizState option" where
  "quizStep s e =
     (case e of
        ClickStartNewQuiz \<Rightarrow>
          if startDisabled s then None else Some (callGenerateQuizStart s)
      | QuizSettled outcome \<Rightarrow>
          if quizLoading s then Some (fst (callGenerateQuizSettle outcome s)) else None
      | ClickOption qIndex oIndex \<Rightarrow>
          if formShown s \<and> qIndex < length (questions s)
             \<and> oIndex < length (options (questions s ! qIndex))
          then Some (handleOptionSelect qIndex (options (questions s ! qIndex) ! oIndex) s)
          else None
      | ClickSubmit \<Rightarrow>
          if formShown s \<and> \<not> submitDisabled s then Some (s\<lparr>showResults := True\<rparr>) else None)"

definition runQuiz :: "QuizState \<Rightarrow> QuizEvent list \<Rightarrow> QuizState option" where
  "runQuiz s events =
     foldl (\<lambda>st e. case st of None \<Rightarrow> None | Some s' \<Rightarrow> quizStep s' e) (Some s) events"

text \<open>The states of the quiz store as the specification names them.\<close>

datatype QuizPhase = Empty | Loading | InProgress | Submitted

definition quizPhase :: "QuizState \<Rightarrow> QuizPhase" where
  "quizPhase s =
     (if quizLoading s then Loading
      else if showResults s then Submitted
      else if questions s \<noteq> [] then InProgress
      else Empty)"

subsection \<open>An example quiz\<close>

definition exampleQuestions :: "QuizQuestion list" where
  "exampleQuestions =
     [\<lparr>question = ''q0'', options = [''A'', ''B'', ''C'', ''D''], correctAnswer = ''A''\<rparr>,
      \<lparr>question = ''q1'', options = [''A'', ''B'', ''C'', ''D''], correctAnswer = ''C''\<rparr>]"

definition exampleQuizEvents :: "QuizEvent list" where
  "exampleQuizEvents =
     [ClickStartNewQuiz, QuizSettled (Inr (Some \<lparr>quiz = Some exampleQuestions\<rparr>)),
      ClickOption 0 0, ClickOption 1 1, ClickOption 1 3]"

section \<open>The view state (\<^verbatim>\<open>App\<close>, src/App.tsx lines 375-474)\<close>

text \<open>\<^verbatim>\<open>view\<close> only ever holds one of the four literals \<^verbatim>\<open>'home'\<close> (the Report view),
  \<^verbatim>\<open>'summary'\<close>, \<^verbatim>\<open>'qna'\<close> and \<^verbatim>\<open>'quiz'\<close>.\<close>

datatype View = Home | Summary | QnA | Quiz

record AppState =
  view :: View
  searchTerm :: string

definition initialApp :: AppState where
  "initialApp = \<lparr>view = Home, searchTerm = ''''\<rparr>"

text \<open>The \<^verbatim>\<open>onChange\<close> handler of the search box and the \<^verbatim>\<open>onClick\<close> handlers of the
  four navigation buttons.\<close>

datatype AppEvent = SearchChange string | Navigate View

definition appStep :: "AppState \<Rightarrow> AppEvent \<Rightarrow> AppState" where
  "appStep s e =
     (case e of
        SearchChange v \<Rightarrow>
          (let s1 = s\<lparr>searchTerm := v\<rparr>
           in if view s \<noteq> Home then s1\<lparr>view := Home\<rparr> else s1)
      | Navigate v \<Rightarrow> s\<lparr>view := v\<rparr>)"

text \<open>The search term reaches the renderer in the Report view only.\<close>

definition appliedSearchTerm :: "AppState \<Rightarrow> string option" where
  "appliedSearchTerm s = (if view s = Home then Some (searchTerm s) else None)"

section \<open>The summaries store (\<^verbatim>\<open>Summaries\<close>, src/App.tsx lines 111-192)\<close>

text \<open>
  The three \<^verbatim>\<open>useState\<close> cells, and two observations of the gateway that the claims are
  about: the calls of \<^verbatim>\<open>generateSummary\<close> made so far, in order, and the titles whose
  call has not settled yet.  A value stored in \<^verbatim>\<open>summaries\<close> is what \<^verbatim>\<open>generateSummary\<close>
  resolved to: a string or \<^verbatim>\<open>undefined\<close>.
\<close>

record SummariesState =
  summaries :: "(string \<times> string option) list"
  loading :: "(string \<times> bool) list"
  currentSectionIndex :: nat
  gatewayCalls :: "(string \<times> string) list"
  inFlight :: "string list"

text \<open>\<^verbatim>\<open>callGenerateSummary\<close> up to its \<^verbatim>\<open>await\<close>.\<close>

definition callGenerateSummaryStart :: "string \<Rightarrow> string \<Rightarrow> SummariesState \<Rightarrow> SummariesState" where
  "callGenerateSummaryStart sectionTitle sectionContent s =
     s\<lparr>loading := AList.update sectionTitle True (loading s),
       gatewayCalls := gatewayCalls s @ [(sectionTitle, sectionContent)],
       inFlight := inFlight s @ [sectionTitle]\<rparr>"

text \<open>\<^verbatim>\<open>callGenerateSummary\<close> from the point where the promise settles.\<close>

definition callGenerateSummarySettle ::
  "string \<Rightarrow> js_error + string option \<Rightarrow> SummariesState \<Rightarrow> SummariesState" where
  "callGenerateSummarySettle sectionTitle outcome s =
     s\<lparr>summaries :=
         AList.update sectionTitle
           (case outcome of
              Inr summaryText \<Rightarrow> summaryText
            | Inl error \<Rightarrow> Some ''Failed to generate summary.'')
           (summaries s),
       loading := AList.update sectionTitle False (loading s),
       inFlight := remove1 sectionTitle (inFlight s)\<rparr>"

text \<open>\<^verbatim>\<open>summaries[title]\<close>: \<^verbatim>\<open>undefined\<close> for a missing entry and for an entry that
  holds \<^verbatim>\<open>undefined\<close>.\<close>

definition summaryOf :: "SummariesState \<Rightarrow> string \<Rightarrow> string option" where
  "summaryOf s sectionTitle =
     (case map_of (summaries s) sectionTitle of None \<Rightarrow> None | Some v \<Rightarrow> v)"

text \<open>The body of \<^verbatim>\<open>useEffect\<close>.  \<^verbatim>\<open>!summaries[title]\<close> holds for \<^verbatim>\<open>undefined\<close> and
  for the empty string; \<^verbatim>\<open>!loading[title]\<close> for a missing entry and for \<^verbatim>\<open>false\<close>.\<close>

definition summariesEffect :: "Section list \<Rightarrow> SummariesState \<Rightarrow> SummariesState" where
  "summariesEffect sections s =
     (if currentSectionIndex s < length sections then
        (let currentSection = sections ! currentSectionIndex s
         in if \<not> truthy (summaryOf s (title currentSection))
               \<and> map_of (loading s) (title currentSection) \<noteq> Some True
            then callGenerateSummaryStart (title currentSection) (content currentSection) s
            else s)
      else s)"

definition handleNext :: "Section list \<Rightarrow> SummariesState \<Rightarrow> SummariesState" where
  "handleNext sections s =
     (if int (currentSectionIndex s) < int (length sections) - 1
      then s\<lparr>currentSectionIndex := currentSectionIndex s + 1\<rparr> else s)"

definition handlePrev :: "SummariesState \<Rightarrow> SummariesState" where
  "handlePrev s =
     (if currentSectionIndex s > 0
      then s\<lparr>currentSectionIndex := currentSectionIndex s - 1\<rparr> else s)"

text \<open>\<^verbatim>\<open>loading[currentSection?.title]\<close>, read as a condition.\<close>

definition currentLoading :: "Section list \<Rightarrow> SummariesState \<Rightarrow> bool" where
  "currentLoading sections s \<longleftrightarrow>
     currentSectionIndex s < length sections
     \<and> map_of (loading s) (title (sections ! currentSectionIndex s)) = Some True"

definition nextDisabled :: "Section list \<Rightarrow> SummariesState \<Rightarrow> bool" where
  "nextDisabled sections s \<longleftrightarrow>
     int (currentSectionIndex s) = int (length sections) - 1 \<or> currentLoading sections s"

definition prevDisabled :: "Section list \<Rightarrow> SummariesState \<Rightarrow> bool" where
  "prevDisabled sections s \<longleftrightarrow> currentSectionIndex s = 0 \<or> currentLoading sections s"

text \<open>The state after the first render and its effect.\<close>

definition mountSummaries :: "Section list \<Rightarrow> SummariesState" where
  "mountSummaries sections =
     summariesEffect sections
       \<lparr>summaries = [], loading = [], currentSectionIndex = 0, gatewayCalls = [], inFlight = []\<rparr>"

text \<open>The events: the two navigation buttons, and the settling of the call for a title
  with its outcome.  After each state change the component renders and the effect runs.\<close>

datatype SummariesEvent =
    ClickNext
  | ClickPrev
  | SummarySettled string "js_error + string option"

definition summariesStep ::
  "Section list \<Rightarrow> SummariesState \<Rightarrow> SummariesEvent \<Rightarrow> SummariesState option" where
  "summariesStep sections s e =
     (case e of
        ClickNext \<Rightarrow>
          if nextDisabled sections s then None
          else Some (summariesEffect sections (handleNext sections s))
      | ClickPrev \<Rightarrow>
          if prevDisabled sections s then None
          else Some (summariesEffect sections (handlePrev s))
      | SummarySettled sectionTitle outcome \<Rightarrow>
          if sectionTitle \<in> set (inFlight s)
          then Some (summariesEffect sections (callGenerateSummarySettle sectionTitle outcome s))
          else None)"

definition runSummaries ::
  "Section list \<Rightarrow> SummariesState \<Rightarrow> SummariesEvent list \<Rightarrow> SummariesState option" where
  "runSummaries sections s events =
     foldl (\<lambda>st e. case st of None \<Rightarrow> None | Some s' \<Rightarrow> summariesStep sections s' e)
           (Some s) events"

subsection \<open>Example sections\<close>

definition exampleSections :: "Section list" where
  "exampleSections =
     [\<lparr>title = ''Abstract'', content = ''abs''\<rparr>, \<lparr>title = ''I. X'', content = ''foo''\<rparr>]"

subsection \<open>Invariants and example states of the stores\<close>

text \<open>What every reachable state of the quiz store satisfies: the answered indices are
  distinct keys below the number of questions, and there are no questions while loading.\<close>

definition quizInv :: "QuizState \<Rightarrow> bool" where
  "quizInv s \<longleftrightarrow>
     distinct (map fst (userAnswers s))
     \<and> list_all (\<lambda>k. k < length (questions s)) (map fst (userAnswers s))
     \<and> (quizLoading s \<longrightarrow> questions s = [])"

text \<open>The state reached by \<^const>\<open>exampleQuizEvents\<close>: both questions answered, the first
  correctly.\<close>

definition answeredQuiz :: QuizState where
  "answeredQuiz =
     \<lparr>questions = exampleQuestions, quizLoading = False,
      userAnswers = [(0, ''A''), (1, ''D'')], showResults = False\<rparr>"

text \<open>What every reachable state of the summaries store satisfies: the titles in flight
  are distinct, and each is marked as loading.\<close>

definition summariesInv :: "SummariesState \<Rightarrow> bool" where
  "summariesInv s \<longleftrightarrow>
     distinct (inFlight s) \<and> list_all (\<lambda>t. map_of (loading s) t = Some True) (inFlight s)"

text \<open>The gateway calls made so far for one title.\<close>

definition callsFor :: "string \<Rightarrow> SummariesState \<Rightarrow> (string \<times> string) list" where
  "callsFor t s = filter (\<lambda>call. fst call = t) (gatewayCalls s)"

text \<open>A title whose stored summary is a non-empty text and that has no call in flight.\<close>

definition cachedFor :: "string \<Rightarrow> SummariesState \<Rightarrow> bool" where
  "cachedFor t s \<longleftrightarrow> truthy (summaryOf s t) \<and> t \<notin> set (inFlight s)"

text \<open>The state after the call for the first section failed, the second section was
  visited and summarised, and the first section was visited again.\<close>

definition failedThenRevisited :: SummariesState where
  "failedThenRevisited =
     \<lparr>summaries = [(''Abstract'', Some ''Failed to generate summary.''), (''I. X'', Some ''ok'')],
      loading = [(''Abstract'', False), (''I. X'', False)],
      currentSectionIndex = 0,
      gatewayCalls = [(''Abstract'', ''abs''), (''I. X'', ''foo'')],
      inFlight = []\<rparr>"


section \<open>Properties of the sectionizer\<close>

lemma parseLine_body:
  "\<not> isHeadingLine l \<Longrightarrow>
   parseLine (S, cur) l = (S, cur\<lparr>content := content cur @ l @ [CHR 0x0A]\<rparr>)"
  by (simp add: parseLine_def)

lemma parseLine_heading:
  "isHeadingLine h \<Longrightarrow>
   parseLine (S, cur) h = (S @ closeSection cur, \<lparr>title = headingTitle h, content = []\<rparr>)"
  by (simp add: parseLine_def closeSection_def headingTitle_def)

lemma fold_body:
  "list_all (\<lambda>l. \<not> isHeadingLine l) b \<Longrightarrow>
   foldl parseLine (S, cur) b = (S, cur\<lparr>content := content cur @ bodyText b\<rparr>)"
proof (induction b arbitrary: cur)
  case Nil
  then show ?case by (simp add: bodyText_def)
next
  case (Cons l b)
  then show ?case by (simp add: parseLine_body bodyText_def)
qed

lemma fold_block:
  assumes "wellFormedBlock hb"
  shows "foldl parseLine (S, cur) (fst hb # snd hb) = (S @ closeSection cur, blockSection hb)"
  using assms
  by (simp add: wellFormedBlock_def parseLine_heading fold_body blockSection_def)

text \<open>The loop over a sequence of blocks: every block but the last has been closed, the
  last one is still open.\<close>

lemma fold_blocks:
  assumes "list_all wellFormedBlock bs" and "bs \<noteq> []"
  shows "foldl parseLine (S, cur) (blockLines bs) =
           (S @ closeSection cur @ concat (map (closeSection \<circ> blockSection) (butlast bs)),
            blockSection (last bs))"
  using assms
proof (induction bs arbitrary: S cur)
  case Nil
  then show ?case by simp
next
  case (Cons hb bs)
  have step: "foldl parseLine (S, cur) (blockLines (hb # bs)) =
              foldl parseLine (S @ closeSection cur, blockSection hb) (blockLines bs)"
    using Cons.prems(1) fold_block [of hb S cur]
    by (simp add: blockLines_def case_prod_beta)
  show ?case
  proof (cases "bs = []")
    case True
    then show ?thesis using step by (simp add: blockLines_def)
  next
    case False
    then show ?thesis using step Cons.IH [OF _ False] Cons.prems(1) by simp
  qed
qed

lemma closeSection_blockSection:
  "closeSection (blockSection hb) =
     (if emitted hb
      then [\<lparr>title = headingTitle (fst hb), content = trim (bodyText (snd hb))\<rparr>] else [])"
  by (simp add: closeSection_def blockSection_def emitted_def)

lemma concat_closeSection:
  "concat (map (closeSection \<circ> blockSection) bs) =
     map (\<lambda>hb. \<lparr>title = headingTitle (fst hb), content = trim (bodyText (snd hb))\<rparr>)
         (filter emitted bs)"
  by (induction bs) (simp_all add: closeSection_blockSection)

text \<open>The result of \<^const>\<open>parseSections\<close> on a document with at least one heading whose
  last heading is not titled \<^verbatim>\<open>Abstract\<close>.\<close>

lemma parseSections_blocks:
  assumes lines: "splitLines text = pre @ blockLines bs"
    and pre: "list_all (\<lambda>l. \<not> isHeadingLine l) pre"
    and blocks: "list_all wellFormedBlock bs"
    and nonempty: "bs \<noteq> []"
    and last: "headingTitle (fst (last bs)) \<noteq> ''Abstract''"
  shows "parseSections text =
           \<lparr>title = ''Abstract'',
            content = trim (replaceFirst (abstractContent text) ''## Abstract'' '''')\<rparr>
           # map (\<lambda>hb. \<lparr>title = headingTitle (fst hb), content = trim (bodyText (snd hb))\<rparr>)
                 (filter emitted bs)"
proof -
  let ?A = "\<lparr>title = ''Abstract'',
            content = trim (replaceFirst (abstractContent text) ''## Abstract'' '''')\<rparr>"
  let ?cur0 = "\<lparr>title = ''Abstract'', content = ''''\<rparr>"
  have pre_fold: "foldl parseLine ([?A], ?cur0) pre = ([?A], ?cur0\<lparr>content := bodyText pre\<rparr>)"
    using fold_body [OF pre, of "[?A]" ?cur0] by simp
  have closed0: "\<And>c. closeSection \<lparr>title = ''Abstract'', content = c\<rparr> = []"
    by (simp add: closeSection_def)
  have loop: "foldl parseLine ([?A], ?cur0) (splitLines text) =
        ([?A] @ concat (map (closeSection \<circ> blockSection) (butlast bs)), blockSection (last bs))"
    using fold_blocks [OF blocks nonempty, of "[?A]" "?cur0\<lparr>content := bodyText pre\<rparr>"]
    by (simp add: lines pre_fold closed0)
  have final: "(if length (trim (content (blockSection (last bs)))) > 0
                then [blockSection (last bs)\<lparr>content := trim (content (blockSection (last bs)))\<rparr>]
                else []) = closeSection (blockSection (last bs))"
    using last by (simp add: closeSection_def blockSection_def)
  have "parseSections text =
          [?A] @ concat (map (closeSection \<circ> blockSection) (butlast bs))
               @ closeSection (blockSection (last bs))"
    using final by (simp add: parseSections_def Let_def loop del: foldl_append split: if_splits)
  also have "\<dots> = [?A] @ concat (map (closeSection \<circ> blockSection) (butlast bs @ [last bs]))"
    by simp
  also have "\<dots> = [?A] @ concat (map (closeSection \<circ> blockSection) bs)"
    using nonempty by simp
  finally show ?thesis by (simp add: concat_closeSection)
qed

lemma splitLines_nonempty: "splitLines s \<noteq> []"
  by (induction s) (auto split: list.splits)

lemma splitLines_startsWith: "splitLines s = l # ls \<Longrightarrow> startsWith s l"
proof (induction s arbitrary: l ls)
  case Nil
  then show ?case by simp
next
  case (Cons c cs)
  show ?case
  proof (cases "c = CHR 0x0A")
    case True
    with Cons.prems show ?thesis by simp
  next
    case False
    obtain l' ls' where sp: "splitLines cs = l' # ls'"
      using splitLines_nonempty [of cs] by (cases "splitLines cs") auto
    with Cons.prems False have "l = c # l'" by simp
    moreover have "startsWith cs l'" using Cons.IH [OF sp] .
    ultimately show ?thesis by simp
  qed
qed

lemma indexOf_startsWith: "startsWith s m \<Longrightarrow> indexOf s m = 0"
  by (cases s; cases m) (simp_all add: indexOf_def)

text \<open>
  Claim C1, as the code has it.  Take a document whose lines are a preamble without heading
  lines followed by heading blocks, at least one, the last heading not titled
  \<^verbatim>\<open>Abstract\<close>.  Then \<^const>\<open>parseSections\<close> returns a first section titled
  \<^verbatim>\<open>Abstract\<close> followed, in document order, by one section for each heading whose title
  is not \<^verbatim>\<open>Abstract\<close> and whose body is not blank: its title is the trimmed heading line
  with a leading \<^verbatim>\<open>## \<close> stripped, its content the trimmed body.  With \<open>k\<close> such headings the
  result has \<open>k + 1\<close> sections; headings with a blank body and the \<^verbatim>\<open>## Abstract\<close> heading
  itself add none.
\<close>

theorem parseSections_titles:
  assumes lines: "splitLines text = pre @ blockLines bs"
    and pre: "list_all (\<lambda>l. \<not> isHeadingLine l) pre"
    and blocks: "list_all wellFormedBlock bs"
    and nonempty: "bs \<noteq> []"
    and last: "headingTitle (fst (last bs)) \<noteq> ''Abstract''"
  shows "map title (parseSections text) =
           ''Abstract'' # map (headingTitle \<circ> fst) (filter emitted bs)
       \<and> map content (tl (parseSections text)) =
           map (trim \<circ> bodyText \<circ> snd) (filter emitted bs)
       \<and> length (parseSections text) = Suc (length (filter emitted bs))"
  by (simp add: parseSections_blocks [OF lines pre blocks nonempty last] comp_def)

text \<open>
  Witness for C1: a document with a title line, the abstract, two sections with text and one
  blank section between them.
\<close>

theorem parseSections_titles_witness:
  "map title (parseSections exampleDocument) = [''Abstract'', ''I. The Core Framework'', ''III. Z'']
   \<and> map content (tl (parseSections exampleDocument)) = [''body'', ''z'']
   \<and> length (parseSections exampleDocument) = 3"
proof -
  let ?bs = "[(''## Abstract'', [''abs'']), (''## I. The Core Framework'', [''body'']),
              (''## II. Empty'', ['''']), (''## III. Z'', [''z''])]"
  have h1: "splitLines exampleDocument = [''# T''] @ blockLines ?bs" by code_simp
  have h2: "list_all (\<lambda>l. \<not> isHeadingLine l) [''# T'']" by code_simp
  have h3: "list_all wellFormedBlock ?bs" by code_simp
  have h4: "?bs \<noteq> []" by simp
  have h5: "headingTitle (fst (last ?bs)) \<noteq> ''Abstract''" by code_simp
  have f: "filter emitted ?bs =
             [(''## I. The Core Framework'', [''body'']), (''## III. Z'', [''z''])]"
    by code_simp
  have t: "map (headingTitle \<circ> fst)
             [(''## I. The Core Framework'', [''body'']), (''## III. Z'', [''z''])]
           = [''I. The Core Framework'', ''III. Z'']" by code_simp
  have c: "map (trim \<circ> bodyText \<circ> snd)
             [(''## I. The Core Framework'', [''body'']), (''## III. Z'', [''z''])]
           = [''body'', ''z'']" by code_simp
  show ?thesis
    using parseSections_titles [OF h1 h2 h3 h4 h5] unfolding f t c by simp
qed

text \<open>
  Counterexample to C1 as stated: the document has three second-level headings and the
  abstract text \<^verbatim>\<open>abs\<close>, yet two sections are returned, not four: the heading with a blank
  body is dropped and the \<^verbatim>\<open>## Abstract\<close> heading adds no section of its own.
\<close>

theorem parseSections_count_counterexample:
  "length (filter isHeadingLine (splitLines blankSectionDocument)) = 3
   \<and> parseSections blankSectionDocument =
       [\<lparr>title = ''Abstract'', content = ''abs''\<rparr>, \<lparr>title = ''II. Y'', content = ''foo''\<rparr>]
   \<and> length (parseSections blankSectionDocument) \<noteq> 3 + 1"
  by code_simp

text \<open>The text before the first occurrence of a pattern does not contain the pattern, and
  \<^verbatim>\<open>substring(a, -1)\<close> is the text before position \<open>a\<close>.\<close>

lemma startsWith_take: "startsWith (take n s) m \<Longrightarrow> startsWith s m"
proof (induction s m arbitrary: n rule: startsWith.induct)
  case (1 s)
  then show ?case by simp
next
  case (2 p ps)
  then show ?case by simp
next
  case (3 c cs p ps)
  then show ?case by (cases n) auto
qed

lemma indexOfFrom_range: "indexOfFrom j s m = - 1 \<or> int j \<le> indexOfFrom j s m"
proof (induction s arbitrary: j)
  case Nil
  then show ?case by simp
next
  case (Cons c cs)
  from Cons [of "Suc j"] show ?case by auto
qed

lemma indexOfFrom_take:
  assumes "m \<noteq> []"
  shows "indexOfFrom i (take (nat (indexOfFrom j s m - int j)) s) m = - 1"
proof (induction s arbitrary: i j)
  case Nil
  with assms show ?case by simp
next
  case (Cons c cs)
  show ?case
  proof (cases "startsWith (c # cs) m")
    case True
    with assms show ?thesis by simp
  next
    case False
    then have eq: "indexOfFrom j (c # cs) m = indexOfFrom (Suc j) cs m" by simp
    from indexOfFrom_range [of "Suc j" cs m]
    show ?thesis
    proof
      assume "indexOfFrom (Suc j) cs m = - 1"
      with eq assms show ?thesis by simp
    next
      assume le: "int (Suc j) \<le> indexOfFrom (Suc j) cs m"
      define n where "n = nat (indexOfFrom (Suc j) cs m - int (Suc j))"
      have n: "nat (indexOfFrom j (c # cs) m - int j) = Suc n"
        using le eq by (simp add: n_def)
      have "\<not> startsWith (take (Suc n) (c # cs)) m"
        using False startsWith_take by blast
      then have ns: "\<not> startsWith (c # take n cs) m" by simp
      have "indexOfFrom (Suc i) (take n cs) m = - 1"
        unfolding n_def by (rule Cons.IH)
      with ns show ?thesis unfolding n by simp
    qed
  qed
qed

lemma replaceFirst_before:
  assumes "m \<noteq> []"
  shows "replaceFirst (take (nat (indexOf s m)) s) m rep = take (nat (indexOf s m)) s"
proof -
  have "indexOf (take (nat (indexOf s m)) s) m = - 1"
    using indexOfFrom_take [OF assms, of 0 0 s] by (simp add: indexOf_def)
  then show ?thesis by (simp add: replaceFirst_def)
qed

lemma substring_minus_one: "substring s a (- 1) = take (nat a) s"
  by (simp add: substring_def Let_def min_def max_def)

text \<open>
  Claim C2, as the code has it.  Take a document whose heading lines are \<^verbatim>\<open>## Abstract\<close>,
  \<^verbatim>\<open>## I. X\<close> and \<^verbatim>\<open>## II. Y\<close>, in this order, where the lines before the first heading and
  the lines of the abstract are any lines that are not headings, X has the content
  \<^verbatim>\<open>foo\<close>, only blank lines follow Y, and the literal \<^verbatim>\<open>## I. The Core Framework\<close> occurs
  nowhere.  Then \<^const>\<open>parseSections\<close> returns exactly two sections: the one titled \<^verbatim>\<open>I. X\<close>
  with content \<^verbatim>\<open>foo\<close>, and before it the one titled \<^verbatim>\<open>Abstract\<close>, whose content is the
  trimmed text that precedes the first occurrence of \<^verbatim>\<open>## Abstract\<close> in the document, not
  the abstract text.  In particular that content is empty when the document begins with the
  \<^verbatim>\<open>## Abstract\<close> heading.
\<close>

theorem parseSections_scenario:
  assumes lines: "splitLines text =
                    pre @ ''## Abstract'' # ab @ [''## I. X'', ''foo'', ''## II. Y''] @ ys"
    and pre: "list_all (\<lambda>l. \<not> isHeadingLine l) pre"
    and ab: "list_all (\<lambda>l. \<not> isHeadingLine l) ab"
    and ys: "list_all (\<lambda>l. \<not> isHeadingLine l) ys" "trim (bodyText ys) = []"
    and marker: "indexOf text ''## I. The Core Framework'' = - 1"
  shows "parseSections text =
           [\<lparr>title = ''Abstract'',
             content = trim (take (nat (indexOf text ''## Abstract'')) text)\<rparr>,
            \<lparr>title = ''I. X'', content = ''foo''\<rparr>]
       \<and> (pre = [] \<longrightarrow>
            parseSections text =
              [\<lparr>title = ''Abstract'', content = ''''\<rparr>, \<lparr>title = ''I. X'', content = ''foo''\<rparr>])"
proof -
  let ?bs = "[(''## Abstract'', ab), (''## I. X'', [''foo'']), (''## II. Y'', ys)]"
  have hA: "isHeadingLine ''## Abstract''" by code_simp
  have hX: "isHeadingLine ''## I. X''" by code_simp
  have hY: "isHeadingLine ''## II. Y''" by code_simp
  have nfoo: "\<not> isHeadingLine ''foo''" by code_simp
  have tA: "headingTitle ''## Abstract'' = ''Abstract''" by code_simp
  have tX: "headingTitle ''## I. X'' = ''I. X''" by code_simp
  have tY: "headingTitle ''## II. Y'' \<noteq> ''Abstract''" by code_simp
  have bfoo: "trim (bodyText [''foo'']) = ''foo''" by code_simp
  have l: "splitLines text = pre @ blockLines ?bs"
    by (simp add: lines blockLines_def)
  have b: "list_all wellFormedBlock ?bs"
    using ab ys(1) hA hX hY nfoo by (simp add: wellFormedBlock_def)
  have f: "filter emitted ?bs = [(''## I. X'', [''foo''])]"
    using tA tX tY ys(2) bfoo by (simp add: emitted_def)
  have ac: "abstractContent text = take (nat (indexOf text ''## Abstract'')) text"
    by (simp add: abstractContent_def marker substring_minus_one)
  have a: "trim (replaceFirst (abstractContent text) ''## Abstract'' '''') =
           trim (take (nat (indexOf text ''## Abstract'')) text)"
    unfolding ac by (simp add: replaceFirst_before)
  have ne: "?bs \<noteq> []" by simp
  have la: "headingTitle (fst (last ?bs)) \<noteq> ''Abstract''" using tY by simp
  have general: "parseSections text =
           [\<lparr>title = ''Abstract'',
             content = trim (take (nat (indexOf text ''## Abstract'')) text)\<rparr>,
            \<lparr>title = ''I. X'', content = ''foo''\<rparr>]"
    unfolding parseSections_blocks [OF l pre b ne la] f a
    by (simp add: tX bfoo)
  have "trim (take (nat (indexOf text ''## Abstract'')) text) = []" if "pre = []"
  proof -
    from lines that have "startsWith text ''## Abstract''"
      using splitLines_startsWith [of "text" "''## Abstract''"] by simp
    then have "indexOf text ''## Abstract'' = 0" by (rule indexOf_startsWith)
    then show ?thesis by (simp add: trim_def)
  qed
  with general show ?thesis by simp
qed

text \<open>Witness for C2: the scenario document with the abstract text \<^verbatim>\<open>abs\<close>, once after a
  title line and once beginning with the \<^verbatim>\<open>## Abstract\<close> heading.\<close>

theorem parseSections_scenario_witness:
  "parseSections titledScenarioDocument =
     [\<lparr>title = ''Abstract'', content = ''# T''\<rparr>, \<lparr>title = ''I. X'', content = ''foo''\<rparr>]
   \<and> parseSections scenarioDocument =
     [\<lparr>title = ''Abstract'', content = ''''\<rparr>, \<lparr>title = ''I. X'', content = ''foo''\<rparr>]"
proof -
  have h1: "splitLines titledScenarioDocument =
              [''# T'', ''''] @ ''## Abstract'' # [''abs''] @ [''## I. X'', ''foo'', ''## II. Y''] @ ['''']"
    by code_simp
  have h0: "list_all (\<lambda>l. \<not> isHeadingLine l) [''# T'', '''']" by code_simp
  have h2: "list_all (\<lambda>l. \<not> isHeadingLine l) [''abs'']" by code_simp
  have h3: "list_all (\<lambda>l. \<not> isHeadingLine l) ['''']" by code_simp
  have h4: "trim (bodyText ['''']) = []" by code_simp
  have h5: "indexOf titledScenarioDocument ''## I. The Core Framework'' = - 1" by code_simp
  have c: "trim (take (nat (indexOf titledScenarioDocument ''## Abstract'')) titledScenarioDocument)
           = ''# T''" by code_simp
  have g1: "splitLines scenarioDocument =
              [] @ ''## Abstract'' # [''abs''] @ [''## I. X'', ''foo'', ''## II. Y''] @ ['''']"
    by code_simp
  have g0: "list_all (\<lambda>l. \<not> isHeadingLine l) []" by simp
  have g5: "indexOf scenarioDocument ''## I. The Core Framework'' = - 1" by code_simp
  have w1: "parseSections titledScenarioDocument =
     [\<lparr>title = ''Abstract'', content = ''# T''\<rparr>, \<lparr>title = ''I. X'', content = ''foo''\<rparr>]"
    using parseSections_scenario [OF h1 h0 h2 h3 h4 h5, THEN conjunct1] unfolding c .
  have w2: "parseSections scenarioDocument =
     [\<lparr>title = ''Abstract'', content = ''''\<rparr>, \<lparr>title = ''I. X'', content = ''foo''\<rparr>]"
    using parseSections_scenario [OF g1 g0 h2 h3 h4 g5, THEN conjunct2] by simp
  from w1 w2 show ?thesis by simp
qed

text \<open>
  Counterexample to C2 as stated: in the scenario document the abstract text is
  \<^verbatim>\<open>abs\<close>, but the section titled \<^verbatim>\<open>Abstract\<close> does not carry it.
\<close>

theorem parseSections_scenario_counterexample:
  "title (hd (parseSections scenarioDocument)) = ''Abstract''
   \<and> content (hd (parseSections scenarioDocument)) \<noteq> ''abs''"
  by code_simp

section \<open>The bound of the JSON parser is never reached\<close>

text \<open>
  Each parser consumes input, and a result obtained at any bound is obtained at every bound
  of at least twice the number of characters consumed.  So the result of \<^const>\<open>JSON_parse\<close>
  is the one that any larger bound gives: the bound only makes the recursion well-founded.
\<close>

lemma skipWs_length: "length (skipWs s) \<le> length s"
  by (simp add: skipWs_def length_dropWhile_le)

lemma skipWs_Cons_length: "skipWs s = c # r \<Longrightarrow> length r < length s"
  using skipWs_length [of s] by simp

lemma parseStringChars_inv:
  assumes "parseStringChars (c # cs) = Some (x, r)"
  shows "r = cs \<or> (\<exists>ys x'. length ys \<le> length cs \<and> parseStringChars ys = Some (x', r))"
proof (cases "c = CHR 0x22")
  case True
  with assms show ?thesis by simp
next
  case notq: False
  show ?thesis
  proof (cases "c = CHR 0x5C")
    case False
    with notq assms obtain x' where "parseStringChars cs = Some (x', r)"
      by (auto split: if_splits)
    then show ?thesis by auto
  next
    case True
    with notq assms obtain e r0 where cs: "cs = e # r0"
      by (cases cs) auto
    show ?thesis
    proof (cases "e = CHR ''u''")
      case False
      with notq True assms cs obtain x' where "parseStringChars r0 = Some (x', r)"
        by (auto split: option.splits)
      then show ?thesis using cs by auto
    next
      case u: True
      with notq True assms cs obtain h1 h2 h3 h4 r' where r0: "r0 = h1 # h2 # h3 # h4 # r'"
        by (auto split: list.splits)
      with notq True assms cs u obtain x' where "parseStringChars r' = Some (x', r)"
        by (auto split: option.splits)
      then show ?thesis using cs r0 by auto
    qed
  qed
qed

lemma parseStringChars_length:
  "parseStringChars s = Some (x, r) \<Longrightarrow> length r < length s"
proof (induction s arbitrary: x rule: length_induct)
  case (1 s)
  show ?case
  proof (cases s)
    case Nil
    with "1.prems" show ?thesis by simp
  next
    case (Cons c cs)
    from parseStringChars_inv [OF "1.prems" [unfolded Cons]]
    show ?thesis
    proof
      assume "r = cs"
      then show ?thesis using Cons by simp
    next
      assume "\<exists>ys x'. length ys \<le> length cs \<and> parseStringChars ys = Some (x', r)"
      then obtain ys x' where ys: "length ys \<le> length cs"
        and p: "parseStringChars ys = Some (x', r)" by blast
      have "length ys < length s" using ys Cons by simp
      with "1.IH" p have "length r < length ys" by blast
      with ys Cons show ?thesis by simp
    qed
  qed
qed

lemma parseDigits_length: "parseDigits s = Some (x, r) \<Longrightarrow> length r < length s"
proof -
  assume a: "parseDigits s = Some (x, r)"
  then have ne: "takeWhile isDigit s \<noteq> []" and r: "r = dropWhile isDigit s"
    by (auto simp: parseDigits_def split: if_splits)
  have "length (takeWhile isDigit s) + length (dropWhile isDigit s) = length s"
    by (metis length_append takeWhile_dropWhile_id)
  with ne r show ?thesis by (cases "takeWhile isDigit s") auto
qed

lemma parseInt_length: "parseInt s = Some (x, r) \<Longrightarrow> length r < length s"
  by (auto simp: parseInt_def split: option.splits if_splits dest: parseDigits_length)

lemma parseFrac_length: "parseFrac s = Some (x, r) \<Longrightarrow> length r \<le> length s"
  by (auto simp: parseFrac_def split: list.splits if_splits dest!: parseDigits_length)

lemma parseExp_length: "parseExp s = Some (x, r) \<Longrightarrow> length r \<le> length s"
  by (auto simp: parseExp_def split: list.splits if_splits dest!: parseDigits_length)

lemma parseNumber_length: "parseNumber s = Some (x, r) \<Longrightarrow> length r < length s"
proof -
  assume a: "parseNumber s = Some (x, r)"
  let ?s0 = "drop (length (if startsWith s ''-'' then ''-'' else '''')) s"
  from a obtain ds s1 fr s2 ex where i: "parseInt ?s0 = Some (ds, s1)"
    and f: "parseFrac s1 = Some (fr, s2)" and e: "parseExp s2 = Some (ex, r)"
    by (auto simp: parseNumber_def Let_def split: option.splits)
  have "length ?s0 \<le> length s" by simp
  with parseInt_length [OF i] parseFrac_length [OF f] parseExp_length [OF e]
  show ?thesis by linarith
qed

lemma enoughFuelD:
  "enoughFuel p n \<Longrightarrow> p n s = Some (x, r) \<Longrightarrow>
   length r < length s \<and> (\<forall>m. 2 * (length s - length r) \<le> m \<longrightarrow> p m s = Some (x, r))"
  unfolding enoughFuel_def by blast

lemma startsWith_length: "startsWith s p \<Longrightarrow> length p \<le> length s"
  by (induction s p rule: startsWith.induct) simp_all

lemma parseValue_Suc_cases:
  assumes "parseValue (Suc n) s = Some (v, r)"
  shows "(\<exists>r0 d r' ms. s = CHR ''{'' # r0 \<and> skipWs r0 = d # r' \<and> d \<noteq> CHR ''}''
            \<and> parseMembers n (d # r') = Some (ms, r) \<and> v = JObject ms)
       \<or> (\<exists>r0 d r' vs. s = CHR ''['' # r0 \<and> skipWs r0 = d # r' \<and> d \<noteq> CHR '']''
            \<and> parseElements n (d # r') = Some (vs, r) \<and> v = JArray vs)
       \<or> (length r < length s \<and> (\<forall>m. parseValue (Suc m) s = Some (v, r)))"
proof (cases s)
  case Nil
  with assms show ?thesis by simp
next
  case (Cons c r0)
  show ?thesis
  proof (cases "c = CHR ''{''")
    case True
    with assms Cons obtain d r' where sk: "skipWs r0 = d # r'"
      by (cases "skipWs r0") auto
    show ?thesis
    proof (cases "d = CHR ''}''")
      case d: True
      have "length r' < length r0" using skipWs_Cons_length [OF sk] .
      with assms Cons True sk d show ?thesis by simp
    next
      case False
      with assms Cons True sk show ?thesis by auto
    qed
  next
    case nb: False
    show ?thesis
    proof (cases "c = CHR ''[''")
      case True
      with assms Cons obtain d r' where sk: "skipWs r0 = d # r'"
        by (cases "skipWs r0") auto
      show ?thesis
      proof (cases "d = CHR '']''")
        case d: True
        have "length r' < length r0" using skipWs_Cons_length [OF sk] .
        with assms Cons True sk d show ?thesis by simp
      next
        case False
        with assms Cons True sk show ?thesis by auto
      qed
    next
      case nk: False
      have indep: "\<And>m. parseValue (Suc m) s = parseValue (Suc n) s"
        using Cons nb nk by simp
      have "length r < length s"
      proof (cases "c = CHR 0x22")
        case True
        with assms Cons nb nk obtain x where "parseStringChars r0 = Some (x, r)" by auto
        from parseStringChars_length [OF this] Cons show ?thesis by simp
      next
        case nq: False
        show ?thesis
        proof (cases "startsWith s ''true'' \<or> startsWith s ''false'' \<or> startsWith s ''null''")
          case True
          then have "4 \<le> length s" using startsWith_length by fastforce
          moreover have "r = drop 4 s \<or> r = drop 5 s"
            using assms Cons nb nk nq True by (auto split: if_splits)
          ultimately show ?thesis by auto
        next
          case False
          with assms Cons nb nk nq obtain x where "parseNumber s = Some (x, r)" by auto
          from parseNumber_length [OF this] show ?thesis .
        qed
      qed
      then show ?thesis using indep assms by simp
    qed
  qed
qed

lemma parseElements_Suc_cases:
  assumes "parseElements (Suc n) s = Some (vs, r)"
  shows "\<exists>v r1 c r'. parseValue n s = Some (v, r1) \<and> skipWs r1 = c # r'
           \<and> (c = CHR '','' \<and> (\<exists>vs'. parseElements n (skipWs r') = Some (vs', r) \<and> vs = v # vs')
               \<or> c = CHR '']'' \<and> r = r' \<and> vs = [v])"
proof -
  from assms obtain v r1 where pv: "parseValue n s = Some (v, r1)"
    by (cases "parseValue n s") auto
  with assms obtain c r' where sk: "skipWs r1 = c # r'"
    by (cases "skipWs r1") auto
  from assms pv sk show ?thesis
    by (cases "c = CHR '',''") (auto split: if_splits)
qed

lemma parseMembers_Suc_cases:
  assumes "parseMembers (Suc n) s = Some (ms, r)"
  shows "\<exists>r0 k r1 r2 v r3 e r4.
           s = CHR 0x22 # r0 \<and> parseStringChars r0 = Some (k, r1) \<and> skipWs r1 = CHR '':'' # r2
           \<and> parseValue n (skipWs r2) = Some (v, r3) \<and> skipWs r3 = e # r4
           \<and> (e = CHR '','' \<and> (\<exists>ms'. parseMembers n (skipWs r4) = Some (ms', r) \<and> ms = (k, v) # ms')
               \<or> e = CHR ''}'' \<and> r = r4 \<and> ms = [(k, v)])"
proof -
  from assms obtain r0 where s: "s = CHR 0x22 # r0"
    by (cases s) (auto split: if_splits)
  with assms obtain k r1 where ps: "parseStringChars r0 = Some (k, r1)"
    by (cases "parseStringChars r0") auto
  with assms s obtain d r2 where sk1: "skipWs r1 = d # r2"
    by (cases "skipWs r1") auto
  with assms s ps have d: "d = CHR '':''" by (auto split: if_splits)
  with assms s ps sk1 obtain v r3 where pv: "parseValue n (skipWs r2) = Some (v, r3)"
    by (cases "parseValue n (skipWs r2)") auto
  with assms s ps sk1 d obtain e r4 where sk3: "skipWs r3 = e # r4"
    by (cases "skipWs r3") auto
  from assms s ps sk1 d pv sk3 show ?thesis
    by (cases "e = CHR '',''") (auto split: if_splits)
qed

lemma enoughFuel_parseValue:
  assumes E: "enoughFuel parseElements n" and M: "enoughFuel parseMembers n"
  shows "enoughFuel parseValue (Suc n)"
  unfolding enoughFuel_def
proof (intro allI impI)
  fix s v r
  assume a: "parseValue (Suc n) s = Some (v, r)"
  from parseValue_Suc_cases [OF a]
  show "length r < length s
        \<and> (\<forall>m. 2 * (length s - length r) \<le> m \<longrightarrow> parseValue m s = Some (v, r))"
  proof (elim disjE exE conjE)
    fix r0 d r' ms
    assume s: "s = CHR ''{'' # r0" and sk: "skipWs r0 = d # r'" and d: "d \<noteq> CHR ''}''"
      and pm: "parseMembers n (d # r') = Some (ms, r)" and v: "v = JObject ms"
    from enoughFuelD [OF M pm]
    have l: "length r < length (d # r')"
      and f: "\<And>m. 2 * (length (d # r') - length r) \<le> m \<Longrightarrow> parseMembers m (d # r') = Some (ms, r)"
      by blast+
    have le: "length (d # r') \<le> length r0" using skipWs_length [of r0] sk by simp
    have "parseValue m s = Some (v, r)" if m: "2 * (length s - length r) \<le> m" for m
    proof -
      from m l le s obtain m' where m': "m = Suc m'" by (cases m) auto
      with m l le s have "2 * (length (d # r') - length r) \<le> m'" by simp
      from f [OF this] show ?thesis using m' s sk d v by simp
    qed
    moreover have "length r < length s" using l le s by simp
    ultimately show ?thesis by blast
  next
    fix r0 d r' vs
    assume s: "s = CHR ''['' # r0" and sk: "skipWs r0 = d # r'" and d: "d \<noteq> CHR '']''"
      and pe: "parseElements n (d # r') = Some (vs, r)" and v: "v = JArray vs"
    from enoughFuelD [OF E pe]
    have l: "length r < length (d # r')"
      and f: "\<And>m. 2 * (length (d # r') - length r) \<le> m \<Longrightarrow> parseElements m (d # r') = Some (vs, r)"
      by blast+
    have le: "length (d # r') \<le> length r0" using skipWs_length [of r0] sk by simp
    have "parseValue m s = Some (v, r)" if m: "2 * (length s - length r) \<le> m" for m
    proof -
      from m l le s obtain m' where m': "m = Suc m'" by (cases m) auto
      with m l le s have "2 * (length (d # r') - length r) \<le> m'" by simp
      from f [OF this] show ?thesis using m' s sk d v by simp
    qed
    moreover have "length r < length s" using l le s by simp
    ultimately show ?thesis by blast
  next
    assume l: "length r < length s" and f: "\<forall>m. parseValue (Suc m) s = Some (v, r)"
    have "parseValue m s = Some (v, r)" if m: "2 * (length s - length r) \<le> m" for m
    proof -
      from m l obtain m' where "m = Suc m'" by (cases m) auto
      with f show ?thesis by simp
    qed
    with l show ?thesis by blast
  qed
qed

lemma enoughFuel_parseElements:
  assumes V: "enoughFuel parseValue n" and E: "enoughFuel parseElements n"
  shows "enoughFuel parseElements (Suc n)"
  unfolding enoughFuel_def
proof (intro allI impI)
  fix s vs r
  assume a: "parseElements (Suc n) s = Some (vs, r)"
  from parseElements_Suc_cases [OF a] obtain v r1 c r'
    where pv: "parseValue n s = Some (v, r1)" and sk: "skipWs r1 = c # r'"
      and alt: "c = CHR '','' \<and> (\<exists>vs'. parseElements n (skipWs r') = Some (vs', r) \<and> vs = v # vs')
                \<or> c = CHR '']'' \<and> r = r' \<and> vs = [v]"
    by blast
  from enoughFuelD [OF V pv]
  have l1: "length r1 < length s"
    and f1: "\<And>m. 2 * (length s - length r1) \<le> m \<Longrightarrow> parseValue m s = Some (v, r1)"
    by blast+
  have l2: "length r' < length r1" using skipWs_Cons_length [OF sk] .
  from alt show "length r < length s
        \<and> (\<forall>m. 2 * (length s - length r) \<le> m \<longrightarrow> parseElements m s = Some (vs, r))"
  proof (elim disjE exE conjE)
    fix vs'
    assume c: "c = CHR '',''" and pe: "parseElements n (skipWs r') = Some (vs', r)"
      and vs: "vs = v # vs'"
    from enoughFuelD [OF E pe]
    have l3: "length r < length (skipWs r')"
      and f3: "\<And>m. 2 * (length (skipWs r') - length r) \<le> m \<Longrightarrow>
                 parseElements m (skipWs r') = Some (vs', r)"
      by blast+
    have l4: "length (skipWs r') \<le> length r'" by (rule skipWs_length)
    have "parseElements m s = Some (vs, r)" if m: "2 * (length s - length r) \<le> m" for m
    proof -
      from m l1 l2 l3 l4 obtain m' where m': "m = Suc m'" by (cases m) auto
      have "2 * (length s - length r1) \<le> m'" using m m' l1 l2 l3 l4 by linarith
      from f1 [OF this] have a: "parseValue m' s = Some (v, r1)" .
      have "2 * (length (skipWs r') - length r) \<le> m'" using m m' l1 l2 l3 l4 by linarith
      from f3 [OF this] have b: "parseElements m' (skipWs r') = Some (vs', r)" .
      show ?thesis using m' a b sk c vs by simp
    qed
    moreover have "length r < length s" using l1 l2 l3 l4 by linarith
    ultimately show ?thesis by blast
  next
    assume c: "c = CHR '']''" and r: "r = r'" and vs: "vs = [v]"
    have lr: "length r = length r'" using r by simp
    have "parseElements m s = Some (vs, r)" if m: "2 * (length s - length r) \<le> m" for m
    proof -
      from m l1 l2 lr obtain m' where m': "m = Suc m'" by (cases m) auto
      have "2 * (length s - length r1) \<le> m'" using m m' l1 l2 lr by linarith
      from f1 [OF this] have a: "parseValue m' s = Some (v, r1)" .
      show ?thesis using m' a sk c r vs by simp
    qed
    moreover have "length r < length s" using l1 l2 lr by linarith
    ultimately show ?thesis by blast
  qed
qed

lemma enoughFuel_parseMembers:
  assumes V: "enoughFuel parseValue n" and M: "enoughFuel parseMembers n"
  shows "enoughFuel parseMembers (Suc n)"
  unfolding enoughFuel_def
proof (intro allI impI)
  fix s ms r
  assume a: "parseMembers (Suc n) s = Some (ms, r)"
  from parseMembers_Suc_cases [OF a] obtain r0 k r1 r2 v r3 e r4
    where s: "s = CHR 0x22 # r0" and ps: "parseStringChars r0 = Some (k, r1)"
      and sk1: "skipWs r1 = CHR '':'' # r2"
      and pv: "parseValue n (skipWs r2) = Some (v, r3)" and sk3: "skipWs r3 = e # r4"
      and alt: "e = CHR '','' \<and> (\<exists>ms'. parseMembers n (skipWs r4) = Some (ms', r) \<and> ms = (k, v) # ms')
                \<or> e = CHR ''}'' \<and> r = r4 \<and> ms = [(k, v)]"
    by blast
  have l0: "length r1 < length r0" using parseStringChars_length [OF ps] .
  have l1: "length r2 < length r1" using skipWs_Cons_length [OF sk1] .
  have l2: "length (skipWs r2) \<le> length r2" by (rule skipWs_length)
  from enoughFuelD [OF V pv]
  have l3: "length r3 < length (skipWs r2)"
    and f3: "\<And>m. 2 * (length (skipWs r2) - length r3) \<le> m \<Longrightarrow>
               parseValue m (skipWs r2) = Some (v, r3)"
    by blast+
  have l4: "length r4 < length r3" using skipWs_Cons_length [OF sk3] .
  have ls: "length s = Suc (length r0)" using s by simp
  from alt show "length r < length s
        \<and> (\<forall>m. 2 * (length s - length r) \<le> m \<longrightarrow> parseMembers m s = Some (ms, r))"
  proof (elim disjE exE conjE)
    fix ms'
    assume e: "e = CHR '',''" and pm: "parseMembers n (skipWs r4) = Some (ms', r)"
      and ms: "ms = (k, v) # ms'"
    from enoughFuelD [OF M pm]
    have l5: "length r < length (skipWs r4)"
      and f5: "\<And>m. 2 * (length (skipWs r4) - length r) \<le> m \<Longrightarrow>
                 parseMembers m (skipWs r4) = Some (ms', r)"
      by blast+
    have l6: "length (skipWs r4) \<le> length r4" by (rule skipWs_length)
    have "parseMembers m s = Some (ms, r)" if m: "2 * (length s - length r) \<le> m" for m
    proof -
      from m ls l0 l1 l2 l3 l4 l5 l6 obtain m' where m': "m = Suc m'" by (cases m) auto
      have "2 * (length (skipWs r2) - length r3) \<le> m'"
        using m m' ls l0 l1 l2 l3 l4 l5 l6 by linarith
      from f3 [OF this] have a: "parseValue m' (skipWs r2) = Some (v, r3)" .
      have "2 * (length (skipWs r4) - length r) \<le> m'"
        using m m' ls l0 l1 l2 l3 l4 l5 l6 by linarith
      from f5 [OF this] have b: "parseMembers m' (skipWs r4) = Some (ms', r)" .
      show ?thesis using m' s ps sk1 a sk3 e b ms by simp
    qed
    moreover have "length r < length s" using ls l0 l1 l2 l3 l4 l5 l6 by linarith
    ultimately show ?thesis by blast
  next
    assume e: "e = CHR ''}''" and r: "r = r4" and ms: "ms = [(k, v)]"
    have lr: "length r = length r4" using r by simp
    have "parseMembers m s = Some (ms, r)" if m: "2 * (length s - length r) \<le> m" for m
    proof -
      from m ls l0 l1 l2 l3 l4 lr obtain m' where m': "m = Suc m'" by (cases m) auto
      have "2 * (length (skipWs r2) - length r3) \<le> m'"
        using m m' ls l0 l1 l2 l3 l4 lr by linarith
      from f3 [OF this] have a: "parseValue m' (skipWs r2) = Some (v, r3)" .
      show ?thesis using m' s ps sk1 a sk3 e r ms by simp
    qed
    moreover have "length r < length s" using ls l0 l1 l2 l3 l4 lr by linarith
    ultimately show ?thesis by blast
  qed
qed

lemma parse_enoughFuel:
  "enoughFuel parseValue n \<and> enoughFuel parseElements n \<and> enoughFuel parseMembers n"
proof (induction n)
  case 0
  show ?case by (simp add: enoughFuel_def)
next
  case (Suc n)
  then show ?case
    using enoughFuel_parseValue enoughFuel_parseElements enoughFuel_parseMembers by blast
qed

lemma JSON_parse_fuel:
  assumes "2 * length text + 2 \<le> m"
  shows "parseValue m (skipWs text) = parseValue (2 * length text + 2) (skipWs text)"
proof -
  have V: "\<And>n. enoughFuel parseValue n" using parse_enoughFuel by blast
  have le: "length (skipWs text) \<le> length text" by (rule skipWs_length)
  have up: "parseValue k' (skipWs text) = Some x"
    if "parseValue k (skipWs text) = Some x" and "2 * length text + 2 \<le> k'" for k k' x
  proof -
    obtain v r where x: "x = (v, r)" by (cases x)
    from enoughFuelD [OF V that(1) [unfolded x]] that(2) le show ?thesis
      unfolding x by simp
  qed
  show ?thesis
  proof (cases "parseValue m (skipWs text)")
    case (Some x)
    from up [OF Some order_refl] Some show ?thesis by simp
  next
    case None
    show ?thesis
    proof (cases "parseValue (2 * length text + 2) (skipWs text)")
      case inner: None
      with None show ?thesis by simp
    next
      case (Some x)
      from up [OF Some assms] None show ?thesis by simp
    qed
  qed
qed

section \<open>Properties of the gateway\<close>

lemma apiKeyErrorMessage_nonempty: "apiKeyErrorMessage \<noteq> []"
  by (simp add: apiKeyErrorMessage_def)

lemma generateSummary_None: "generateSummary None t c = Inr (Some apiKeyErrorMessage)"
  by (simp add: generateSummary_def checkApiKey_def truthy_def apiKeyErrorMessage_nonempty)

lemma generateSummary_Some:
  "generateSummary (Some g) t c =
     (case g \<lparr>model = modelName, contents = summaryPrompt t c, config = None\<rparr> of
        Inr text \<Rightarrow> Inr text
      | Inl error \<Rightarrow> Inr (Some ''Failed to generate summary.''))"
  by (simp add: generateSummary_def checkApiKey_def truthy_def generateContent_def)

lemma answerQuestion_None: "answerQuestion None r q = Inr (Some apiKeyErrorMessage)"
  by (simp add: answerQuestion_def checkApiKey_def truthy_def apiKeyErrorMessage_nonempty)

lemma answerQuestion_Some:
  "answerQuestion (Some g) r q =
     (case g \<lparr>model = modelName, contents = answerPrompt r q, config = None\<rparr> of
        Inr text \<Rightarrow> Inr text
      | Inl error \<Rightarrow> Inr (Some ''Failed to get an answer. Please try again.''))"
  by (simp add: answerQuestion_def checkApiKey_def truthy_def generateContent_def)

text \<open>
  Neither function raises.  Each resolves to the configuration-error text when no client is
  configured, to the fixed fallback text when the remote call fails, and otherwise to the
  \<^verbatim>\<open>text\<close> property of the response as it is, which is a string or \<^verbatim>\<open>undefined\<close>.
\<close>

lemma summary_answer_results:
  "(\<exists>v. generateSummary client t c = Inr v \<and>
        (client = None \<and> v = Some apiKeyErrorMessage
         \<or> (\<exists>g. client = Some g \<and>
               (g \<lparr>model = modelName, contents = summaryPrompt t c, config = None\<rparr> = Inr v
                \<or> isl (g \<lparr>model = modelName, contents = summaryPrompt t c, config = None\<rparr>)
                  \<and> v = Some ''Failed to generate summary.''))))
   \<and> (\<exists>v. answerQuestion client r q = Inr v \<and>
        (client = None \<and> v = Some apiKeyErrorMessage
         \<or> (\<exists>g. client = Some g \<and>
               (g \<lparr>model = modelName, contents = answerPrompt r q, config = None\<rparr> = Inr v
                \<or> isl (g \<lparr>model = modelName, contents = answerPrompt r q, config = None\<rparr>)
                  \<and> v = Some ''Failed to get an answer. Please try again.''))))"
proof (cases client)
  case None
  then show ?thesis by (simp add: generateSummary_None answerQuestion_None)
next
  case (Some g)
  have a: "\<exists>v. generateSummary (Some g) t c = Inr v \<and>
             (g \<lparr>model = modelName, contents = summaryPrompt t c, config = None\<rparr> = Inr v
              \<or> isl (g \<lparr>model = modelName, contents = summaryPrompt t c, config = None\<rparr>)
                \<and> v = Some ''Failed to generate summary.'')"
    by (cases "g \<lparr>model = modelName, contents = summaryPrompt t c, config = None\<rparr>")
       (simp_all add: generateSummary_Some)
  have b: "\<exists>v. answerQuestion (Some g) r q = Inr v \<and>
             (g \<lparr>model = modelName, contents = answerPrompt r q, config = None\<rparr> = Inr v
              \<or> isl (g \<lparr>model = modelName, contents = answerPrompt r q, config = None\<rparr>)
                \<and> v = Some ''Failed to get an answer. Please try again.'')"
    by (cases "g \<lparr>model = modelName, contents = answerPrompt r q, config = None\<rparr>")
       (simp_all add: answerQuestion_Some)
  from a b Some show ?thesis by simp
qed

text \<open>
  Claim C3 at an input where the code departs from it: a client is configured and the remote
  call succeeds with a response that carries no text.  Neither function raises, but each
  resolves to \<^verbatim>\<open>undefined\<close>, which is not a string: not the model's text, not the fallback
  and not the configuration-error text.
\<close>

theorem summary_answer_undefined:
  "generateSummary (Some noTextClient) ''Abstract'' ''abs'' = Inr None
   \<and> answerQuestion (Some noTextClient) ''doc'' ''why?'' = Inr None"
  by (simp add: generateSummary_Some answerQuestion_Some noTextClient_def)

lemma generateQuiz_None: "generateQuiz None doc = Inl (Error apiKeyErrorMessage)"
  by (simp add: generateQuiz_def checkApiKey_def truthy_def apiKeyErrorMessage_nonempty)

lemma generateQuiz_Some:
  "generateQuiz (Some g) doc =
     (case g (quizParameters doc) of
        Inl error \<Rightarrow> Inl (Error ''Failed to generate quiz. Please try again.'')
      | Inr None \<Rightarrow> Inl (Error ''Failed to generate quiz. Please try again.'')
      | Inr (Some text) \<Rightarrow>
          if \<not> startsWith (trim text) ''{'' \<and> \<not> startsWith (trim text) ''[''
          then Inl (Error ''Failed to generate quiz. Please try again.'')
          else (case JSON_parse (trim text) of
                  Inl error \<Rightarrow> Inl (Error ''Failed to generate quiz. Please try again.'')
                | Inr quizData \<Rightarrow> Inr quizData))"
  by (simp add: generateQuiz_def generateQuizTry_def checkApiKey_def truthy_def
      generateContent_def Let_def split: sum.splits option.splits)

text \<open>
  Claim C4, as the code has it.  \<^const>\<open>generateQuiz\<close> raises exactly when (a) no client is
  configured, (b) the remote call fails, (c) the trimmed response text starts with neither
  \<^verbatim>\<open>{\<close> nor \<^verbatim>\<open>[\<close>, (d) \<^verbatim>\<open>JSON.parse\<close> rejects the trimmed text, or (e) the response carries
  no text, so that \<^verbatim>\<open>response.text.trim()\<close> raises.  In case (a) the error carries the
  configuration message, in the others the generic quiz failure message; no placeholder quiz
  is returned.
\<close>

theorem generateQuiz_raises_iff:
  "(isl (generateQuiz client doc) \<longleftrightarrow>
      client = None
      \<or> (\<exists>g. client = Some g \<and>
           (isl (g (quizParameters doc))
            \<or> g (quizParameters doc) = Inr None
            \<or> (\<exists>text. g (quizParameters doc) = Inr (Some text) \<and>
                 (\<not> startsWith (trim text) ''{'' \<and> \<not> startsWith (trim text) ''[''
                  \<or> isl (JSON_parse (trim text)))))))
   \<and> (client = None \<longrightarrow> generateQuiz client doc = Inl (Error apiKeyErrorMessage))
   \<and> (client \<noteq> None \<longrightarrow> isl (generateQuiz client doc) \<longrightarrow>
        generateQuiz client doc = Inl (Error ''Failed to generate quiz. Please try again.''))"
proof (cases client)
  case None
  then show ?thesis by (simp add: generateQuiz_None)
next
  case (Some g)
  show ?thesis
  proof (cases "g (quizParameters doc)")
    case (Inl e)
    with Some show ?thesis by (simp add: generateQuiz_Some)
  next
    case (Inr resp)
    show ?thesis
    proof (cases resp)
      case None
      with Some Inr show ?thesis by (simp add: generateQuiz_Some)
    next
      case (Some body)
      with \<open>client = Some g\<close> Inr show ?thesis
        by (cases "JSON_parse (trim body)") (simp_all add: generateQuiz_Some)
    qed
  qed
qed

text \<open>
  Witness for C4: a remote service that answers in prose, case (c).
\<close>

theorem generateQuiz_raises_iff_witness:
  "isl (generateQuiz (Some proseClient) ''doc'')
   \<and> generateQuiz (Some proseClient) ''doc'' = Inl (Error ''Failed to generate quiz. Please try again.'')"
proof -
  note T = generateQuiz_raises_iff [of "Some proseClient" "''doc''"]
  have t: "\<not> startsWith (trim ''Here is your quiz'') ''{''
         \<and> \<not> startsWith (trim ''Here is your quiz'') ''[''" by code_simp
  have p: "proseClient (quizParameters ''doc'') = Inr (Some ''Here is your quiz'')"
    by (simp add: proseClient_def)
  have r: "isl (generateQuiz (Some proseClient) ''doc'')"
    using T p t by simp
  then show ?thesis using T by simp
qed

text \<open>
  Counterexample to C4 as stated: a client is configured, the remote call succeeds and the
  trimmed text starts with \<^verbatim>\<open>{\<close>, so none of (a), (b), (c) holds, and
  \<^const>\<open>generateQuiz\<close> raises all the same, because the text is not JSON.
\<close>

theorem generateQuiz_parse_failure_counterexample:
  "braceClient (quizParameters ''doc'') = Inr (Some ''{'')
   \<and> startsWith (trim ''{'') ''{''
   \<and> generateQuiz (Some braceClient) ''doc'' = Inl (Error ''Failed to generate quiz. Please try again.'')"
  by code_simp

text \<open>
  Claim C5, as the code has it.  \<^const>\<open>generateQuiz\<close> returns successfully exactly when the
  remote call succeeds with a text whose trimmed form starts with \<^verbatim>\<open>{\<close> or \<^verbatim>\<open>[\<close> and
  parses as JSON, and it returns the parsed value as it is: the number of questions, the
  number of options and the membership of \<^verbatim>\<open>correctAnswer\<close> are not checked.
\<close>

theorem generateQuiz_success_iff:
  "generateQuiz client doc = Inr quizData \<longleftrightarrow>
     (\<exists>g text. client = Some g \<and> g (quizParameters doc) = Inr (Some text)
        \<and> (startsWith (trim text) ''{'' \<or> startsWith (trim text) ''['')
        \<and> JSON_parse (trim text) = Inr quizData)"
proof (cases client)
  case None
  then show ?thesis by (simp add: generateQuiz_None)
next
  case (Some g)
  show ?thesis
  proof (cases "g (quizParameters doc)")
    case (Inl e)
    with Some show ?thesis by (simp add: generateQuiz_Some)
  next
    case (Inr resp)
    show ?thesis
    proof (cases resp)
      case None
      with Some Inr show ?thesis by (simp add: generateQuiz_Some)
    next
      case (Some body)
      with \<open>client = Some g\<close> Inr show ?thesis
        by (cases "JSON_parse (trim body)") (auto simp add: generateQuiz_Some)
    qed
  qed
qed

text \<open>
  Witness for C5: a response with one question, two options and an answer that is none of
  them is returned as parsed.
\<close>

theorem generateQuiz_success_witness:
  \<open>generateQuiz (Some oneQuestionClient) ''doc'' =
     Inr (JObject [(''quiz'', JArray [JObject [(''question'', JString ''q''),
        (''options'', JArray [JString ''a'', JString ''b'']), (''correctAnswer'', JString ''c'')]])])\<close>
proof -
  have p: \<open>JSON_parse (trim '' {"quiz":[{"question":"q","options":["a","b"],"correctAnswer":"c"}]} '') =
     Inr (JObject [(''quiz'', JArray [JObject [(''question'', JString ''q''),
        (''options'', JArray [JString ''a'', JString ''b'']), (''correctAnswer'', JString ''c'')]])])\<close>
    by code_simp
  have s: \<open>startsWith (trim '' {"quiz":[{"question":"q","options":["a","b"],"correctAnswer":"c"}]} '') ''{''\<close>
    by code_simp
  show ?thesis
    unfolding generateQuiz_success_iff
    using p s by (simp add: oneQuestionClient_def)
qed

text \<open>
  Counterexample to C5 as stated: \<^const>\<open>generateQuiz\<close> returns successfully with a quiz of no
  questions.
\<close>

theorem generateQuiz_shape_counterexample:
  "generateQuiz (Some emptyQuizClient) ''doc'' = Inr (JObject [(''quiz'', JArray [])])
   \<and> getProp (JObject [(''quiz'', JArray [])]) ''quiz'' = Some (JArray [])
   \<and> \<not> quizShape (JObject [(''quiz'', JArray [])])"
  by code_simp

section \<open>Properties of the quiz store and of the view state\<close>

lemma quizInv_initial: "quizInv initialQuiz"
  by (simp add: quizInv_def initialQuiz_def)

lemma quizStep_inv:
  assumes "quizInv s" and "quizStep s e = Some s'"
  shows "quizInv s'"
proof (cases e)
  case ClickStartNewQuiz
  with assms show ?thesis
    by (auto simp: quizStep_def quizInv_def callGenerateQuizStart_def split: if_splits)
next
  case (QuizSettled outcome)
  with assms show ?thesis
    by (auto simp: quizStep_def quizInv_def callGenerateQuizSettle_def list_all_iff
        split: if_splits sum.splits option.splits)
next
  case (ClickOption qi oi)
  with assms have shown: "formShown s" and qi: "qi < length (questions s)"
    and s': "s' = handleOptionSelect qi (options (questions s ! qi) ! oi) s"
    by (auto simp: quizStep_def split: if_splits)
  have "distinct (map fst (userAnswers s'))"
    using assms(1) by (simp add: s' handleOptionSelect_def quizInv_def distinct_update)
  moreover have "fst ` set (userAnswers s') = insert qi (fst ` set (userAnswers s))"
    by (simp add: s' handleOptionSelect_def AList.dom_update)
  moreover have "questions s' = questions s" "quizLoading s' = quizLoading s"
    by (simp_all add: s' handleOptionSelect_def)
  ultimately show ?thesis
    using assms(1) qi shown by (auto simp: quizInv_def list_all_iff formShown_def)
next
  case ClickSubmit
  with assms show ?thesis
    by (auto simp: quizStep_def quizInv_def formShown_def split: if_splits)
qed

lemma runQuiz_snoc:
  "runQuiz s (events @ [e]) =
     (case runQuiz s events of None \<Rightarrow> None | Some s' \<Rightarrow> quizStep s' e)"
  by (simp add: runQuiz_def)

lemma runQuiz_inv:
  "quizInv s \<Longrightarrow> runQuiz s events = Some s' \<Longrightarrow> quizInv s'"
proof (induction events arbitrary: s' rule: rev_induct)
  case Nil
  then show ?case by (simp add: runQuiz_def)
next
  case (snoc e events)
  from snoc.prems(2) obtain s1 where r: "runQuiz s events = Some s1"
    and st: "quizStep s1 e = Some s'"
    by (auto simp: runQuiz_snoc split: option.splits)
  have "quizInv s1" using snoc.IH [OF snoc.prems(1) r] .
  then show ?case using st by (rule quizStep_inv)
qed

lemma all_answered:
  assumes "quizInv s"
  shows "\<not> submitDisabled s \<longleftrightarrow> (\<forall>i<length (questions s). map_of (userAnswers s) i \<noteq> None)"
proof -
  let ?K = "fst ` set (userAnswers s)"
  let ?n = "length (questions s)"
  have card: "card ?K = length (userAnswers s)"
    using assms distinct_card [of "map fst (userAnswers s)"] by (simp add: quizInv_def)
  have sub: "?K \<subseteq> {..<?n}"
    using assms by (auto simp: quizInv_def list_all_iff)
  have dom: "\<And>i. map_of (userAnswers s) i \<noteq> None \<longleftrightarrow> i \<in> ?K"
    by (simp add: map_of_eq_None_iff)
  show ?thesis
  proof
    assume "\<not> submitDisabled s"
    then have "card {..<?n} \<le> card ?K" by (simp add: submitDisabled_def card)
    with sub have "?K = {..<?n}" by (simp add: card_seteq)
    then show "\<forall>i<?n. map_of (userAnswers s) i \<noteq> None" using dom by blast
  next
    assume "\<forall>i<?n. map_of (userAnswers s) i \<noteq> None"
    then have "{..<?n} \<subseteq> ?K" using dom by blast
    then have "card {..<?n} \<le> card ?K" by (intro card_mono) simp_all
    then show "\<not> submitDisabled s" by (simp add: submitDisabled_def card)
  qed
qed

lemma foldl_count:
  "foldl (\<lambda>score x. if P x then score + 1 else score) (a :: nat) xs = a + length (filter P xs)"
  by (induction xs arbitrary: a) simp_all

lemma calculateScore_card:
  "calculateScore s =
     card {i. i < length (questions s)
              \<and> map_of (userAnswers s) i = Some (correctAnswer (questions s ! i))}"
proof -
  let ?P = "\<lambda>x. map_of (userAnswers s) (snd x) = Some (correctAnswer (fst x))"
  let ?xs = "zip (questions s) [0 ..< length (questions s)]"
  have "calculateScore s = length (filter ?P ?xs)"
    using foldl_count [of ?P 0 ?xs] by (simp add: calculateScore_def case_prod_unfold)
  also have "\<dots> = card {i. i < length ?xs \<and> ?P (?xs ! i)}"
    by (rule length_filter_conv_card)
  also have "{i. i < length ?xs \<and> ?P (?xs ! i)} =
             {i. i < length (questions s)
                 \<and> map_of (userAnswers s) i = Some (correctAnswer (questions s ! i))}"
    by auto
  finally show ?thesis .
qed

text \<open>
  Claim C6.  In every state the quiz store reaches from its initial state, the submit
  button can be clicked exactly when the question form is shown and every question index has
  a recorded answer; and after submission the results are shown and the computed score is
  the number of question indices whose recorded answer equals that question's
  \<^verbatim>\<open>correctAnswer\<close>.
\<close>

theorem quiz_submit_and_score:
  assumes "runQuiz initialQuiz events = Some s"
  shows "(quizStep s ClickSubmit \<noteq> None \<longleftrightarrow>
            formShown s \<and> (\<forall>i<length (questions s). map_of (userAnswers s) i \<noteq> None))
       \<and> (\<forall>s'. quizStep s ClickSubmit = Some s' \<longrightarrow>
            showResults s'
            \<and> calculateScore s' =
                card {i. i < length (questions s')
                         \<and> map_of (userAnswers s') i = Some (correctAnswer (questions s' ! i))})"
proof -
  have inv: "quizInv s" using runQuiz_inv [OF quizInv_initial assms] .
  have "quizStep s ClickSubmit \<noteq> None \<longleftrightarrow> formShown s \<and> \<not> submitDisabled s"
    by (simp add: quizStep_def)
  then have a: "quizStep s ClickSubmit \<noteq> None \<longleftrightarrow>
            formShown s \<and> (\<forall>i<length (questions s). map_of (userAnswers s) i \<noteq> None)"
    using all_answered [OF inv] by simp
  have b: "\<And>s'. quizStep s ClickSubmit = Some s' \<Longrightarrow> showResults s'"
    by (auto simp: quizStep_def split: if_splits)
  show ?thesis using a b calculateScore_card by blast
qed

text \<open>
  Witness for C6: two questions; submission is refused after one answer and accepted after
  both, and the score is 1.
\<close>

theorem quiz_submit_and_score_witness:
  "runQuiz initialQuiz exampleQuizEvents = Some answeredQuiz
   \<and> quizStep answeredQuiz ClickSubmit = Some (answeredQuiz\<lparr>showResults := True\<rparr>)
   \<and> card {i. i < length (questions (answeredQuiz\<lparr>showResults := True\<rparr>))
              \<and> map_of (userAnswers (answeredQuiz\<lparr>showResults := True\<rparr>)) i
                = Some (correctAnswer (questions (answeredQuiz\<lparr>showResults := True\<rparr>) ! i))} = 1
   \<and> runQuiz initialQuiz (butlast exampleQuizEvents) \<noteq> None
   \<and> quizStep (the (runQuiz initialQuiz (butlast (butlast exampleQuizEvents)))) ClickSubmit = None"
proof -
  have h: "runQuiz initialQuiz exampleQuizEvents = Some answeredQuiz" by code_simp
  have e: "quizStep answeredQuiz ClickSubmit = Some (answeredQuiz\<lparr>showResults := True\<rparr>)"
    by code_simp
  have sc: "calculateScore (answeredQuiz\<lparr>showResults := True\<rparr>) = 1" by code_simp
  have p: "runQuiz initialQuiz (butlast exampleQuizEvents) \<noteq> None" by code_simp
  have q: "quizStep (the (runQuiz initialQuiz (butlast (butlast exampleQuizEvents)))) ClickSubmit = None"
    by code_simp
  from quiz_submit_and_score [OF h] e sc
  have "card {i. i < length (questions (answeredQuiz\<lparr>showResults := True\<rparr>))
              \<and> map_of (userAnswers (answeredQuiz\<lparr>showResults := True\<rparr>)) i
                = Some (correctAnswer (questions (answeredQuiz\<lparr>showResults := True\<rparr>) ! i))} = 1"
    by metis
  with h e p q show ?thesis by blast
qed

text \<open>
  Claim C7, as the code has it.  From every state that is not Loading (Empty, InProgress or
  Submitted) the start button resets the store directly to Loading, with no questions, no
  recorded answers and the results hidden; in the Loading state the button is disabled.
\<close>

theorem start_new_quiz:
  "(quizPhase s \<noteq> Loading \<longrightarrow>
      quizStep s ClickStartNewQuiz =
        Some \<lparr>questions = [], quizLoading = True, userAnswers = [], showResults = False\<rparr>
      \<and> quizPhase \<lparr>questions = [], quizLoading = True, userAnswers = [], showResults = False\<rparr>
          = Loading)
   \<and> (quizPhase s = Loading \<longrightarrow> quizStep s ClickStartNewQuiz = None)"
  by (cases s) (simp add: quizPhase_def quizStep_def startDisabled_def callGenerateQuizStart_def)

text \<open>
  Witness for C7: starting a new quiz from a Submitted state.
\<close>

theorem start_new_quiz_witness:
  "quizPhase (answeredQuiz\<lparr>showResults := True\<rparr>) = Submitted
   \<and> quizStep (answeredQuiz\<lparr>showResults := True\<rparr>) ClickStartNewQuiz =
        Some \<lparr>questions = [], quizLoading = True, userAnswers = [], showResults = False\<rparr>"
proof -
  have p: "quizPhase (answeredQuiz\<lparr>showResults := True\<rparr>) = Submitted" by code_simp
  then show ?thesis
    using start_new_quiz [of "answeredQuiz\<lparr>showResults := True\<rparr>"] by simp
qed

text \<open>
  Counterexample to C7 as stated: after one click the store is Loading, and there the start
  button is disabled, so a second click is not possible.
\<close>

theorem start_new_quiz_loading_counterexample:
  "runQuiz initialQuiz [ClickStartNewQuiz] = Some (callGenerateQuizStart initialQuiz)
   \<and> quizPhase (callGenerateQuizStart initialQuiz) = Loading
   \<and> startDisabled (callGenerateQuizStart initialQuiz)
   \<and> quizStep (callGenerateQuizStart initialQuiz) ClickStartNewQuiz = None"
  by code_simp

lemma searchTerm_navigate:
  "searchTerm (foldl appStep s (map Navigate vs)) = searchTerm s"
  by (induction vs arbitrary: s) (simp_all add: appStep_def)

text \<open>
  Claim C8.  Editing the search term always leaves the view in Report with the new term
  applied, whatever the view was; and a sequence of navigation clicks leaves the search term
  unchanged, so that it is applied again on return to Report.
\<close>

theorem search_term_view:
  "view (appStep s (SearchChange v)) = Home
   \<and> searchTerm (appStep s (SearchChange v)) = v
   \<and> appliedSearchTerm (appStep s (SearchChange v)) = Some v
   \<and> searchTerm (foldl appStep s (map Navigate vs)) = searchTerm s
   \<and> appliedSearchTerm (appStep (foldl appStep s (map Navigate vs)) (Navigate Home))
       = Some (searchTerm s)"
  by (simp add: searchTerm_navigate appliedSearchTerm_def appStep_def Let_def)

text \<open>
  Witness for C8: an edit made in the Quiz view, and a tour of the other views.
\<close>

theorem search_term_view_witness:
  "view (appStep \<lparr>view = Quiz, searchTerm = ''old''\<rparr> (SearchChange ''wave'')) = Home
   \<and> searchTerm (appStep \<lparr>view = Quiz, searchTerm = ''old''\<rparr> (SearchChange ''wave'')) = ''wave''
   \<and> searchTerm (foldl appStep \<lparr>view = Quiz, searchTerm = ''old''\<rparr>
                   (map Navigate [Summary, QnA, Home])) = ''old''"
  using search_term_view [of "\<lparr>view = Quiz, searchTerm = ''old''\<rparr>" "''wave''" "[Summary, QnA, Home]"]
  by simp

section \<open>Properties of the summaries store\<close>

lemma summariesEffect_cases:
  "summariesEffect sections s = s
   \<or> (\<exists>sec :: Section. \<not> truthy (summaryOf s (title sec))
          \<and> map_of (loading s) (title sec) \<noteq> Some True
          \<and> summariesEffect sections s
              = callGenerateSummaryStart (title sec) (content sec) s)"
proof (cases "summariesEffect sections s = s")
  case True
  then show ?thesis by simp
next
  case False
  then have "\<not> truthy (summaryOf s (title (sections ! currentSectionIndex s)))
      \<and> map_of (loading s) (title (sections ! currentSectionIndex s)) \<noteq> Some True
      \<and> summariesEffect sections s
          = callGenerateSummaryStart (title (sections ! currentSectionIndex s))
              (content (sections ! currentSectionIndex s)) s"
    by (simp add: summariesEffect_def Let_def split: if_splits)
  then show ?thesis by blast
qed

lemma summariesEffect_inv:
  assumes "summariesInv s"
  shows "summariesInv (summariesEffect sections s)"
proof (cases "summariesEffect sections s = s")
  case True
  with assms show ?thesis by simp
next
  case False
  then obtain sec :: Section where loading: "map_of (loading s) (title sec) \<noteq> Some True"
    and eff: "summariesEffect sections s = callGenerateSummaryStart (title sec) (content sec) s"
    using summariesEffect_cases [of sections s] by blast
  have fresh: "title sec \<notin> set (inFlight s)"
    using assms loading by (auto simp: summariesInv_def list_all_iff)
  show ?thesis
    using assms fresh
    by (auto simp: eff summariesInv_def callGenerateSummaryStart_def list_all_iff update_conv')
qed

lemma settle_inv:
  assumes "summariesInv s"
  shows "summariesInv (callGenerateSummarySettle t outcome s)"
proof -
  have d: "distinct (inFlight s)"
    and l: "\<forall>u\<in>set (inFlight s). map_of (loading s) u = Some True"
    using assms by (simp_all add: summariesInv_def list_all_iff)
  have rest: "set (remove1 t (inFlight s)) = set (inFlight s) - {t}"
    using d by (rule set_remove1_eq)
  have d': "distinct (remove1 t (inFlight s))" using d by simp
  have l': "\<forall>u\<in>set (remove1 t (inFlight s)).
              map_of (AList.update t False (loading s)) u = Some True"
    using l by (simp add: rest update_conv')
  show ?thesis
    using d' l' by (simp add: summariesInv_def callGenerateSummarySettle_def list_all_iff)
qed

lemma summariesStep_inv:
  assumes "summariesInv s" and "summariesStep sections s e = Some s'"
  shows "summariesInv s'"
proof (cases e)
  case ClickNext
  have "summariesInv (handleNext sections s)"
    using assms(1) by (simp add: summariesInv_def handleNext_def)
  with assms(2) ClickNext show ?thesis
    by (auto simp: summariesStep_def split: if_splits intro: summariesEffect_inv)
next
  case ClickPrev
  have "summariesInv (handlePrev s)"
    using assms(1) by (simp add: summariesInv_def handlePrev_def)
  with assms(2) ClickPrev show ?thesis
    by (auto simp: summariesStep_def split: if_splits intro: summariesEffect_inv)
next
  case (SummarySettled t outcome)
  with assms show ?thesis
    by (auto simp: summariesStep_def split: if_splits intro: summariesEffect_inv settle_inv)
qed

lemma runSummaries_snoc:
  "runSummaries sections s (events @ [e]) =
     (case runSummaries sections s events of
        None \<Rightarrow> None
      | Some s' \<Rightarrow> summariesStep sections s' e)"
  by (simp add: runSummaries_def)

lemma runSummaries_inv:
  "summariesInv s \<Longrightarrow> runSummaries sections s events = Some s' \<Longrightarrow> summariesInv s'"
proof (induction events arbitrary: s' rule: rev_induct)
  case Nil
  then show ?case by (simp add: runSummaries_def)
next
  case (snoc e events)
  from snoc.prems(2) obtain s1 where r: "runSummaries sections s events = Some s1"
    and st: "summariesStep sections s1 e = Some s'"
    by (auto simp: runSummaries_snoc split: option.splits)
  have "summariesInv s1" using snoc.IH [OF snoc.prems(1) r] .
  then show ?case using st by (rule summariesStep_inv)
qed

lemma mountSummaries_inv: "summariesInv (mountSummaries sections)"
  unfolding mountSummaries_def
  by (rule summariesEffect_inv) (simp add: summariesInv_def)

text \<open>At most one request per title is in flight, in every state the store can reach.\<close>

lemma one_request_in_flight:
  assumes "runSummaries sections (mountSummaries sections) events = Some s"
  shows "distinct (inFlight s)"
  using runSummaries_inv [OF mountSummaries_inv assms] by (simp add: summariesInv_def)

lemma summariesEffect_cached:
  assumes "cachedFor t s"
  shows "cachedFor t (summariesEffect sections s)
       \<and> map_of (summaries (summariesEffect sections s)) t = map_of (summaries s) t
       \<and> callsFor t (summariesEffect sections s) = callsFor t s"
proof (cases "summariesEffect sections s = s")
  case True
  with assms show ?thesis by simp
next
  case False
  then obtain sec :: Section where falsy: "\<not> truthy (summaryOf s (title sec))"
    and eff: "summariesEffect sections s = callGenerateSummaryStart (title sec) (content sec) s"
    using summariesEffect_cases [of sections s] by blast
  have "title sec \<noteq> t" using assms falsy by (auto simp: cachedFor_def)
  then show ?thesis
    using assms
    by (simp add: eff cachedFor_def summaryOf_def callsFor_def callGenerateSummaryStart_def)
qed

lemma summariesStep_cached:
  assumes "cachedFor t s" and "summariesStep sections s e = Some s'"
  shows "cachedFor t s' \<and> map_of (summaries s') t = map_of (summaries s) t
       \<and> callsFor t s' = callsFor t s"
proof (cases e)
  case ClickNext
  have "cachedFor t (handleNext sections s)"
    "map_of (summaries (handleNext sections s)) t = map_of (summaries s) t"
    "callsFor t (handleNext sections s) = callsFor t s"
    using assms(1) by (simp_all add: cachedFor_def summaryOf_def callsFor_def handleNext_def)
  moreover have "s' = summariesEffect sections (handleNext sections s)"
    using assms(2) ClickNext by (auto simp: summariesStep_def split: if_splits)
  ultimately show ?thesis
    using summariesEffect_cached [of t "handleNext sections s" sections] by simp
next
  case ClickPrev
  have "cachedFor t (handlePrev s)"
    "map_of (summaries (handlePrev s)) t = map_of (summaries s) t"
    "callsFor t (handlePrev s) = callsFor t s"
    using assms(1) by (simp_all add: cachedFor_def summaryOf_def callsFor_def handlePrev_def)
  moreover have "s' = summariesEffect sections (handlePrev s)"
    using assms(2) ClickPrev by (auto simp: summariesStep_def split: if_splits)
  ultimately show ?thesis
    using summariesEffect_cached [of t "handlePrev s" sections] by simp
next
  case (SummarySettled u outcome)
  have u: "u \<in> set (inFlight s)"
    and s': "s' = summariesEffect sections (callGenerateSummarySettle u outcome s)"
    using assms(2) SummarySettled by (auto simp: summariesStep_def split: if_splits)
  have ut: "u \<noteq> t" using assms(1) u by (auto simp: cachedFor_def)
  have gone: "t \<notin> set (remove1 u (inFlight s))"
    using assms(1) by (simp add: cachedFor_def notin_set_remove1)
  have "cachedFor t (callGenerateSummarySettle u outcome s)"
    "map_of (summaries (callGenerateSummarySettle u outcome s)) t = map_of (summaries s) t"
    "callsFor t (callGenerateSummarySettle u outcome s) = callsFor t s"
    using assms(1) ut gone
    by (simp_all add: cachedFor_def summaryOf_def callsFor_def callGenerateSummarySettle_def
        update_conv')
  then show ?thesis
    using summariesEffect_cached [of t "callGenerateSummarySettle u outcome s" sections] s'
    by simp
qed

lemma runSummaries_cached:
  "cachedFor t s \<Longrightarrow> runSummaries sections s events = Some s' \<Longrightarrow>
   cachedFor t s' \<and> map_of (summaries s') t = map_of (summaries s) t
   \<and> callsFor t s' = callsFor t s"
proof (induction events arbitrary: s' rule: rev_induct)
  case Nil
  then show ?case by (simp add: runSummaries_def)
next
  case (snoc e events)
  from snoc.prems(2) obtain s1 where r: "runSummaries sections s events = Some s1"
    and st: "summariesStep sections s1 e = Some s'"
    by (auto simp: runSummaries_snoc split: option.splits)
  have ih: "cachedFor t s1 \<and> map_of (summaries s1) t = map_of (summaries s) t
       \<and> callsFor t s1 = callsFor t s"
    using snoc.IH [OF snoc.prems(1) r] .
  then have c1: "cachedFor t s1" by simp
  have "cachedFor t s' \<and> map_of (summaries s') t = map_of (summaries s1) t
       \<and> callsFor t s' = callsFor t s1"
    using summariesStep_cached [OF c1 st] .
  with ih show ?case by simp
qed

text \<open>
  Claim C10, as the code has it.  When the summarize request for a title fails, the fallback
  text is stored as the summary of that title, and from then on no event of the Summaries
  view (navigation to other sections and back, other requests settling) issues another
  gateway call for that title: the failure is kept like a result.
\<close>

theorem failed_summary_not_retried:
  assumes reach: "runSummaries sections (mountSummaries sections) before = Some s"
    and fail: "isl (g \<lparr>model = modelName, contents = summaryPrompt t c, config = None\<rparr>)"
    and settle: "summariesStep sections s (SummarySettled t (generateSummary (Some g) t c)) = Some s1"
    and later: "runSummaries sections s1 events = Some s2"
  shows "map_of (summaries s2) t = Some (Some ''Failed to generate summary.'')
       \<and> callsFor t s2 = callsFor t s"
proof -
  let ?fallback = "Some ''Failed to generate summary.''"
  have out: "generateSummary (Some g) t c = Inr ?fallback"
    using fail
    by (cases "g \<lparr>model = modelName, contents = summaryPrompt t c, config = None\<rparr>")
       (simp_all add: generateSummary_Some)
  let ?s0 = "callGenerateSummarySettle t (Inr ?fallback) s"
  have inv: "summariesInv s" using runSummaries_inv [OF mountSummaries_inv reach] .
  have s1: "s1 = summariesEffect sections ?s0"
    using settle by (auto simp: summariesStep_def out split: if_splits)
  have "t \<notin> set (inFlight ?s0)"
    using inv by (simp add: callGenerateSummarySettle_def summariesInv_def)
  moreover have stored: "map_of (summaries ?s0) t = Some ?fallback"
    by (simp add: callGenerateSummarySettle_def update_conv')
  ultimately have c0: "cachedFor t ?s0" by (simp add: cachedFor_def summaryOf_def truthy_def)
  have calls0: "callsFor t ?s0 = callsFor t s"
    by (simp add: callsFor_def callGenerateSummarySettle_def)
  from summariesEffect_cached [OF c0, of sections] s1
  have c1: "cachedFor t s1" and m1: "map_of (summaries s1) t = Some ?fallback"
    and k1: "callsFor t s1 = callsFor t s"
    using stored calls0 by simp_all
  from runSummaries_cached [OF c1 later] m1 k1 show ?thesis by simp
qed

text \<open>
  Witness for C10: the request for the first of two sections fails; the user visits the second
  section and comes back.
\<close>

theorem failed_summary_not_retried_witness:
  "map_of (summaries failedThenRevisited) ''Abstract'' = Some (Some ''Failed to generate summary.'')
   \<and> callsFor ''Abstract'' failedThenRevisited = [(''Abstract'', ''abs'')]"
proof -
  let ?s1 = "\<lparr>summaries = [(''Abstract'', Some ''Failed to generate summary.'')],
      loading = [(''Abstract'', False)], currentSectionIndex = 0,
      gatewayCalls = [(''Abstract'', ''abs'')], inFlight = []\<rparr>"
  have h1: "runSummaries exampleSections (mountSummaries exampleSections) [] =
              Some (mountSummaries exampleSections)" by (simp add: runSummaries_def)
  have h2: "isl (failingClient \<lparr>model = modelName, contents = summaryPrompt ''Abstract'' ''abs'',
                               config = None\<rparr>)"
    by (simp add: failingClient_def)
  have h3: "summariesStep exampleSections (mountSummaries exampleSections)
              (SummarySettled ''Abstract'' (generateSummary (Some failingClient) ''Abstract'' ''abs''))
            = Some ?s1" by code_simp
  have h4: "runSummaries exampleSections ?s1
              [ClickNext, SummarySettled ''I. X'' (Inr (Some ''ok'')), ClickPrev]
            = Some failedThenRevisited" by code_simp
  have k: "callsFor ''Abstract'' (mountSummaries exampleSections) = [(''Abstract'', ''abs'')]"
    by code_simp
  show ?thesis
    using failed_summary_not_retried [OF h1 h2 h3 h4] unfolding k .
qed

text \<open>
  Counterexample to C10 as stated: after the failed request for \<^verbatim>\<open>Abstract\<close>, moving to
  the next section and back leaves the call log with its single call for \<^verbatim>\<open>Abstract\<close> and
  nothing in flight.
\<close>

theorem failed_summary_revisit_counterexample:
  "runSummaries exampleSections (mountSummaries exampleSections)
     [SummarySettled ''Abstract'' (generateSummary (Some failingClient) ''Abstract'' ''abs''),
      ClickNext, SummarySettled ''I. X'' (Inr (Some ''ok'')), ClickPrev]
   = Some failedThenRevisited
   \<and> currentSectionIndex failedThenRevisited = 0
   \<and> gatewayCalls failedThenRevisited = [(''Abstract'', ''abs''), (''I. X'', ''foo'')]
   \<and> inFlight failedThenRevisited = []"
  by code_simp

text \<open>
  Claim C9 at an input where the code departs from it: the request for \<^verbatim>\<open>Abstract\<close>
  settles with the empty string; the title is then loaded, but the effect treats the empty
  summary as missing and issues a second gateway call for the same title.
\<close>

theorem empty_summary_requested_again:
  "generateSummary (Some emptyTextClient) ''Abstract'' ''abs'' = Inr (Some '''')
   \<and> runSummaries exampleSections (mountSummaries exampleSections)
       [SummarySettled ''Abstract'' (generateSummary (Some emptyTextClient) ''Abstract'' ''abs'')]
     = Some \<lparr>summaries = [(''Abstract'', Some '''')], loading = [(''Abstract'', True)],
             currentSectionIndex = 0,
             gatewayCalls = [(''Abstract'', ''abs''), (''Abstract'', ''abs'')],
             inFlight = [''Abstract'']\<rparr>"
  by code_simp

end
